theory Spec2Isabelle
  imports Main
begin

section \<open>JavaScript values, errors and the object store\<close>

text \<open>
  The values the queue's methods return: \<open>undefined\<close>, \<open>null\<close>, booleans, numbers,
  an element that was enqueued, and arrays. Elements are opaque (type \<open>'a\<close>).
  Numbers are modelled as unbounded integers: batch sizes, delays and counters are
  integers, and the loss of precision of a double beyond \<open>2^53\<close> is not modelled.
\<close>

datatype 'a jsval =
    JUndefined
  | JNull
  | JBool bool
  | JNum int
  | JElem 'a
  | JArray "'a jsval list"

text \<open>The only exception the code can raise: reading a property of \<open>null\<close>.\<close>

datatype error = TypeError

text \<open>
  What the constructor's first argument can be, as far as the code looks at it: it is
  compared with \<open>null\<close> and its \<open>typeof\<close> is compared with \<open>'function'\<close>.
\<close>

datatype callback = CbNull | CbFunction | CbOther

definition typeof_function :: "callback \<Rightarrow> bool" where
  "typeof_function c = (c = CbFunction)"

text \<open>
  \<open>class Node\<close>. Node objects live in a store; a reference to a node is its address and
  \<open>null\<close> is \<open>None\<close>. The store is a list, an address is an index, and \<open>new Node(value)\<close>
  appends, so that a new node's address is fresh. Nodes are never removed from the store
  (garbage is not observable).
\<close>

type_synonym addr = nat

record 'a node =
  node_value :: 'a
  node_next :: "addr option"

definition new_Node :: "'a \<Rightarrow> 'a node" where
  "new_Node v = \<lparr>node_value = v, node_next = None\<rparr>"

text \<open>
  Reading a property through a reference: \<open>null\<close> raises TypeError. An address outside the
  store cannot exist in JavaScript; the model makes it an error as well.
\<close>

definition deref :: "'a node list \<Rightarrow> addr option \<Rightarrow> error + addr" where
  "deref h p = (case p of None \<Rightarrow> Inl TypeError
                | Some a \<Rightarrow> if a < length h then Inr a else Inl TypeError)"

section \<open>The linked-list queue (src/unnamed/part_000)\<close>

text \<open>
  The fields of \<open>class FifoQueueAsync\<close>, together with the part of the world its methods
  act on: the node store, the log of the worker's invocations (the worker is an opaque
  callback that does not call back into the queue; each invocation is recorded with its
  two arguments), and the pending \<open>setTimeout\<close> callbacks. Every pending callback is
  \<open>() => this.startAutoDequeue()\<close>, so a timer is recorded by its delay; timers of one
  queue all have the same delay and fire in the order they were set.
\<close>

record 'a FifoQueueAsync =
  heap :: "'a node list"
  head :: "addr option"
  tail :: "addr option"
  length_q :: int
  dequeueWorkerCallback :: callback
  dequeueBatchSize :: int
  dequeueDelay :: int
  manualStop :: bool
  calls :: "('a jsval list \<times> bool) list"
  timers :: "int list"

text \<open>\<open>constructor(dequeueWorker, dequeueBatchSize, dequeueDelay, manualStop)\<close>\<close>

definition new_FifoQueueAsync :: "callback \<Rightarrow> int \<Rightarrow> int \<Rightarrow> bool \<Rightarrow> 'a FifoQueueAsync" where
  "new_FifoQueueAsync worker batchSize delay mStop =
     \<lparr>heap = [], head = None, tail = None, length_q = 0,
      dequeueWorkerCallback = worker, dequeueBatchSize = batchSize,
      dequeueDelay = delay, manualStop = mStop, calls = [], timers = []\<rparr>"

text \<open>\<open>getDequeueElement()\<close>: the removed value, or \<open>null\<close> on an empty queue.\<close>

definition getDequeueElement :: "'a FifoQueueAsync \<Rightarrow> error + ('a jsval \<times> 'a FifoQueueAsync)" where
  "getDequeueElement q =
     (if length_q q = 0 then Inr (JNull, q)
      else
        let removedNode = head q;
            q1 = (if head q = tail q then q\<lparr>tail := None\<rparr> else q)
        in (case deref (heap q1) (head q1) of
              Inl e \<Rightarrow> Inl e
            | Inr h \<Rightarrow>
                let q2 = q1\<lparr>head := node_next (heap q1 ! h)\<rparr>;
                    q3 = q2\<lparr>length_q := length_q q2 - 1\<rparr>
                in (case deref (heap q3) removedNode of
                      Inl e \<Rightarrow> Inl e
                    | Inr r \<Rightarrow> Inr (JElem (node_value (heap q3 ! r)), q3))))"

text \<open>\<open>clear()\<close>\<close>

definition clear :: "'a FifoQueueAsync \<Rightarrow> 'a FifoQueueAsync" where
  "clear q = q\<lparr>head := None, tail := None, length_q := 0\<rparr>"

text \<open>The loop of \<open>getDequeueElements\<close>: \<open>for(let i=dequeueLimit; i>0; i--)\<close>.\<close>

function dequeueLoop ::
  "int \<Rightarrow> 'a jsval list \<Rightarrow> 'a FifoQueueAsync \<Rightarrow> error + ('a jsval list \<times> 'a FifoQueueAsync)" where
  "dequeueLoop i elements q =
     (if i > 0 then
        (case getDequeueElement q of
           Inl e \<Rightarrow> Inl e
         | Inr (x, q') \<Rightarrow> dequeueLoop (i - 1) (elements @ [x]) q')
      else Inr (elements, q))"
  by pat_completeness auto
termination
  by (relation "measure (\<lambda>(i, elements, q). nat i)") auto

text \<open>
  \<open>getDequeueElements(batchSize = null)\<close>. The parameter is \<open>None\<close> for \<open>null\<close> (also
  when the argument is left out).
\<close>

definition getDequeueElements ::
  "int option \<Rightarrow> 'a FifoQueueAsync \<Rightarrow> error + ('a jsval list \<times> 'a FifoQueueAsync)" where
  "getDequeueElements batchSize q =
     (let queueSize = length_q q;
          dequeueLimit = (case batchSize of
                            None \<Rightarrow> min (dequeueBatchSize q) queueSize
                          | Some b \<Rightarrow> min b queueSize)
      in (case dequeueLoop dequeueLimit [] q of
            Inl e \<Rightarrow> Inl e
          | Inr (elements, q') \<Rightarrow>
              Inr (elements, if length_q q' = 0 then clear q' else q')))"

text \<open>\<open>enqueue(value)\<close>\<close>

definition enqueue :: "'a \<Rightarrow> 'a FifoQueueAsync \<Rightarrow> error + 'a FifoQueueAsync" where
  "enqueue v q =
     (let newNode = length (heap q);
          q0 = q\<lparr>heap := heap q @ [new_Node v]\<rparr>
      in (if length_q q0 = 0 then
            Inr (q0\<lparr>head := Some newNode, tail := Some newNode, length_q := length_q q0 + 1\<rparr>)
          else
            (case deref (heap q0) (tail q0) of
               Inl e \<Rightarrow> Inl e
             | Inr t \<Rightarrow>
                 Inr (q0\<lparr>heap := (heap q0)[t := (heap q0 ! t)\<lparr>node_next := Some newNode\<rparr>],
                         tail := Some newNode,
                         length_q := length_q q0 + 1\<rparr>))))"

text \<open>
  \<open>dequeueWorker()\<close>: the arguments of the callback are evaluated left to right, so the
  emptiness flag is read after the extraction. The call is appended to the log.
\<close>

definition dequeueWorker :: "'a FifoQueueAsync \<Rightarrow> error + 'a FifoQueueAsync" where
  "dequeueWorker q =
     (if typeof_function (dequeueWorkerCallback q) then
        (case getDequeueElements None q of
           Inl e \<Rightarrow> Inl e
         | Inr (elements, q') \<Rightarrow>
             Inr (q'\<lparr>calls := calls q' @ [(elements, length_q q' = 0)]\<rparr>))
      else Inr q)"

text \<open>
  \<open>dequeue(batchSize = 1)\<close>. The parameter is the value after the default has been
  applied: \<open>Some 1\<close> when the argument is left out, \<open>None\<close> for an explicit \<open>null\<close>.
\<close>

definition dequeue :: "int option \<Rightarrow> 'a FifoQueueAsync \<Rightarrow> error + ('a jsval \<times> 'a FifoQueueAsync)" where
  "dequeue batchSize q =
     (if dequeueWorkerCallback q \<noteq> CbNull \<and> typeof_function (dequeueWorkerCallback q) then
        (case dequeueWorker q of
           Inl e \<Rightarrow> Inl e
         | Inr q' \<Rightarrow> Inr (JUndefined, q'))
      else
        (case getDequeueElements batchSize q of
           Inl e \<Rightarrow> Inl e
         | Inr (elements, q') \<Rightarrow> Inr (JArray elements, q')))"

text \<open>\<open>setTimeout(() => { this.startAutoDequeue() }, this.dequeueDelay)\<close>\<close>

definition setTimeout :: "int \<Rightarrow> 'a FifoQueueAsync \<Rightarrow> 'a FifoQueueAsync" where
  "setTimeout delay q = q\<lparr>timers := timers q @ [delay]\<rparr>"

text \<open>\<open>startAutoDequeue()\<close>: one round; the next round is a pending timer.\<close>

definition startAutoDequeue :: "'a FifoQueueAsync \<Rightarrow> error + ('a jsval \<times> 'a FifoQueueAsync)" where
  "startAutoDequeue q =
     (if dequeueWorkerCallback q = CbNull \<or> \<not> typeof_function (dequeueWorkerCallback q) then
        Inr (JBool False, q)
      else if \<not> manualStop q then
        (if length_q q \<noteq> 0 then
           (case dequeueWorker q of
              Inl e \<Rightarrow> Inl e
            | Inr q' \<Rightarrow> Inr (JUndefined, setTimeout (dequeueDelay q') q'))
         else Inr (JUndefined, q))
      else
        (case dequeueWorker q of
           Inl e \<Rightarrow> Inl e
         | Inr q' \<Rightarrow> Inr (JUndefined, setTimeout (dequeueDelay q') q')))"

text \<open>\<open>isEmpty()\<close>, \<open>size()\<close>, \<open>peek()\<close>\<close>

definition isEmpty :: "'a FifoQueueAsync \<Rightarrow> bool" where
  "isEmpty q = (length_q q = 0)"

definition size_q :: "'a FifoQueueAsync \<Rightarrow> int" where
  "size_q q = length_q q"

definition peek :: "'a FifoQueueAsync \<Rightarrow> error + 'a jsval" where
  "peek q =
     (if isEmpty q then Inr JNull
      else (case deref (heap q) (head q) of
              Inl e \<Rightarrow> Inl e
            | Inr h \<Rightarrow> Inr (JElem (node_value (heap q ! h)))))"

text \<open>\<open>removeDequeueWorkerCallback()\<close>, \<open>stopAutoDequeue()\<close>\<close>

definition removeDequeueWorkerCallback :: "'a FifoQueueAsync \<Rightarrow> 'a FifoQueueAsync" where
  "removeDequeueWorkerCallback q = q\<lparr>dequeueWorkerCallback := CbNull\<rparr>"

definition stopAutoDequeue :: "'a FifoQueueAsync \<Rightarrow> 'a FifoQueueAsync" where
  "stopAutoDequeue q = q\<lparr>manualStop := False\<rparr>"

text \<open>
  The host's timer queue: the oldest pending callback fires and runs one round of
  \<open>startAutoDequeue\<close>, whose return value the arrow function discards. With no timer
  pending nothing happens.
\<close>

definition fireTimer :: "'a FifoQueueAsync \<Rightarrow> error + 'a FifoQueueAsync" where
  "fireTimer q =
     (case timers q of
        [] \<Rightarrow> Inr q
      | d # ds \<Rightarrow>
          (case startAutoDequeue (q\<lparr>timers := ds\<rparr>) of
             Inl e \<Rightarrow> Inl e
           | Inr (r, q') \<Rightarrow> Inr q'))"

text \<open>
  Letting the deferred rounds settle: timers fire until none is pending. A loop in
  manual-stop mode never settles, so the run is bounded by fuel, and \<open>None\<close> says that
  the fuel ran out with a round still pending.
\<close>

fun settle :: "nat \<Rightarrow> 'a FifoQueueAsync \<Rightarrow> (error + 'a FifoQueueAsync) option" where
  "settle fuel q =
     (if timers q = [] then Some (Inr q)
      else (case fuel of
              0 \<Rightarrow> None
            | Suc n \<Rightarrow>
                (case fireTimer q of
                   Inl e \<Rightarrow> Some (Inl e)
                 | Inr q' \<Rightarrow> settle n q')))"


text \<open>
  A call of a method, or the firing of a pending timer, and its interpreter: the value
  the call returns and the state it leaves. \<open>run\<close> performs a sequence of calls and
  collects the returned values; an exception ends the run.
\<close>

datatype 'a call =
    Enqueue 'a
  | GetDequeueElement
  | GetDequeueElements "int option"
  | Dequeue "int option"
  | DequeueWorker
  | StartAutoDequeue
  | Peek
  | IsEmpty
  | Size
  | Clear
  | RemoveDequeueWorkerCallback
  | StopAutoDequeue
  | FireTimer

fun step :: "'a call \<Rightarrow> 'a FifoQueueAsync \<Rightarrow> error + ('a jsval \<times> 'a FifoQueueAsync)" where
  "step (Enqueue v) q = (case enqueue v q of Inl e \<Rightarrow> Inl e | Inr q' \<Rightarrow> Inr (JUndefined, q'))"
| "step GetDequeueElement q = getDequeueElement q"
| "step (GetDequeueElements b) q =
     (case getDequeueElements b q of Inl e \<Rightarrow> Inl e | Inr (es, q') \<Rightarrow> Inr (JArray es, q'))"
| "step (Dequeue b) q = dequeue b q"
| "step DequeueWorker q = (case dequeueWorker q of Inl e \<Rightarrow> Inl e | Inr q' \<Rightarrow> Inr (JUndefined, q'))"
| "step StartAutoDequeue q = startAutoDequeue q"
| "step Peek q = (case peek q of Inl e \<Rightarrow> Inl e | Inr r \<Rightarrow> Inr (r, q))"
| "step IsEmpty q = Inr (JBool (isEmpty q), q)"
| "step Size q = Inr (JNum (size_q q), q)"
| "step Clear q = Inr (JUndefined, clear q)"
| "step RemoveDequeueWorkerCallback q = Inr (JUndefined, removeDequeueWorkerCallback q)"
| "step StopAutoDequeue q = Inr (JUndefined, stopAutoDequeue q)"
| "step FireTimer q = (case fireTimer q of Inl e \<Rightarrow> Inl e | Inr q' \<Rightarrow> Inr (JUndefined, q'))"

fun run :: "'a call list \<Rightarrow> 'a FifoQueueAsync \<Rightarrow> error + ('a jsval list \<times> 'a FifoQueueAsync)" where
  "run [] q = Inr ([], q)"
| "run (c # cs) q =
     (case step c q of
        Inl e \<Rightarrow> Inl e
      | Inr (r, q') \<Rightarrow>
          (case run cs q' of
             Inl e \<Rightarrow> Inl e
           | Inr (rs, q'') \<Rightarrow> Inr (r # rs, q'')))"

text \<open>What a run returned and the state it ended in, when no exception was raised.\<close>

fun returned :: "error + ('r \<times> 's) \<Rightarrow> 'r option" where
  "returned (Inl e) = None"
| "returned (Inr (r, s)) = Some r"

fun final :: "error + ('r \<times> 's) \<Rightarrow> 's option" where
  "final (Inl e) = None"
| "final (Inr (r, s)) = Some s"

subsection \<open>The chain of nodes and the invariant of the representation\<close>

text \<open>
  \<open>chain h p n\<close> follows the \<open>next\<close> links from \<open>p\<close> exactly \<open>n\<close> times: it is the list of
  the addresses visited when every one of them is a node of the store and the link of the
  last one is \<open>null\<close>, and \<open>None\<close> otherwise.
\<close>

fun chain :: "'a node list \<Rightarrow> addr option \<Rightarrow> nat \<Rightarrow> addr list option" where
  "chain h p 0 = (if p = None then Some [] else None)"
| "chain h p (Suc n) =
     (case p of
        None \<Rightarrow> None
      | Some a \<Rightarrow>
          if a < length h then
            (case chain h (node_next (h ! a)) n of None \<Rightarrow> None | Some as \<Rightarrow> Some (a # as))
          else None)"

text \<open>
  The invariant of the representation: \<open>length\<close> is not negative, following \<open>next\<close> from
  \<open>head\<close> exactly \<open>length\<close> times visits distinct nodes and then ends, and \<open>tail\<close> is the
  last node visited (\<open>null\<close> when there is none).
\<close>

definition queue_inv :: "'a FifoQueueAsync \<Rightarrow> bool" where
  "queue_inv q =
     (0 \<le> length_q q \<and>
      (case chain (heap q) (head q) (nat (length_q q)) of
         None \<Rightarrow> False
       | Some as \<Rightarrow> distinct as \<and> tail q = (if as = [] then None else Some (last as))))"

text \<open>The elements a queue holds, oldest first.\<close>

definition contents :: "'a FifoQueueAsync \<Rightarrow> 'a list" where
  "contents q =
     (case chain (heap q) (head q) (nat (length_q q)) of
        None \<Rightarrow> []
      | Some as \<Rightarrow> map (\<lambda>a. node_value (heap q ! a)) as)"

text \<open>The two structural invariants on \<open>head\<close>, \<open>tail\<close> and \<open>length\<close>.\<close>

definition structural_inv :: "'a FifoQueueAsync \<Rightarrow> bool" where
  "structural_inv q =
     ((length_q q = 0 \<longleftrightarrow> head q = None \<and> tail q = None) \<and>
      (head q = tail q \<longleftrightarrow> length_q q \<le> 1))"

text \<open>
  Everything outside the chain: the drain policy, the log of worker calls and the pending
  timers.
\<close>

definition frame :: "'a FifoQueueAsync \<Rightarrow> (callback \<times> int \<times> int \<times> bool) \<times> ('a jsval list \<times> bool) list \<times> int list" where
  "frame q = ((dequeueWorkerCallback q, dequeueBatchSize q, dequeueDelay q, manualStop q), calls q, timers q)"

text \<open>The drain policy: worker callback, batch size, delay and stop mode.\<close>

definition policy :: "'a FifoQueueAsync \<Rightarrow> callback \<times> int \<times> int \<times> bool" where
  "policy q = (dequeueWorkerCallback q, dequeueBatchSize q, dequeueDelay q, manualStop q)"

section \<open>The array queue (src/FifoQueueAsync.js)\<close>

text \<open>
  The earlier implementation keeps the elements in an array with two cursors. The array
  is sparse (\<open>delete\<close> leaves a hole, an assignment past the end extends it), so it is a
  map from indices to elements; reading a hole gives \<open>undefined\<close>. Its auto-dequeue loop
  is not modelled: no claim is about it.
\<close>

record 'a FifoQueueAsync_arr =
  items :: "int \<Rightarrow> 'a option"
  front :: int
  rear :: int
  dequeueWorkerCallback_arr :: callback
  dequeueBatchSize_arr :: int
  dequeueDelay_arr :: int
  calls_arr :: "('a jsval list \<times> bool) list"

definition new_FifoQueueAsync_arr :: "callback \<Rightarrow> int \<Rightarrow> int \<Rightarrow> 'a FifoQueueAsync_arr" where
  "new_FifoQueueAsync_arr worker batchSize delay =
     \<lparr>items = (\<lambda>i. None), front = 0, rear = 0,
      dequeueWorkerCallback_arr = worker, dequeueBatchSize_arr = batchSize,
      dequeueDelay_arr = delay, calls_arr = []\<rparr>"

definition isEmpty_arr :: "'a FifoQueueAsync_arr \<Rightarrow> bool" where
  "isEmpty_arr q = (front q = rear q)"

definition size_arr :: "'a FifoQueueAsync_arr \<Rightarrow> int" where
  "size_arr q = rear q - front q"

definition clear_arr :: "'a FifoQueueAsync_arr \<Rightarrow> 'a FifoQueueAsync_arr" where
  "clear_arr q = q\<lparr>items := (\<lambda>i. None), front := 0, rear := 0\<rparr>"

definition getDequeueElement_arr :: "'a FifoQueueAsync_arr \<Rightarrow> 'a jsval \<times> 'a FifoQueueAsync_arr" where
  "getDequeueElement_arr q =
     (if isEmpty_arr q then (JNull, q)
      else
        let item = (case items q (front q) of None \<Rightarrow> JUndefined | Some v \<Rightarrow> JElem v);
            q1 = q\<lparr>items := (items q)(front q := None)\<rparr>;
            q2 = q1\<lparr>front := front q1 + 1\<rparr>
        in (item, q2))"

function dequeueLoop_arr ::
  "int \<Rightarrow> 'a jsval list \<Rightarrow> 'a FifoQueueAsync_arr \<Rightarrow> 'a jsval list \<times> 'a FifoQueueAsync_arr" where
  "dequeueLoop_arr i elements q =
     (if i > 0 then
        (case getDequeueElement_arr q of
           (x, q') \<Rightarrow> dequeueLoop_arr (i - 1) (elements @ [x]) q')
      else (elements, q))"
  by pat_completeness auto
termination
  by (relation "measure (\<lambda>(i, elements, q). nat i)") auto

definition getDequeueElements_arr ::
  "int option \<Rightarrow> 'a FifoQueueAsync_arr \<Rightarrow> 'a jsval list \<times> 'a FifoQueueAsync_arr" where
  "getDequeueElements_arr batchSize q =
     (let queueSize = size_arr q;
          dequeueLimit = (case batchSize of
                            None \<Rightarrow> min (dequeueBatchSize_arr q) queueSize
                          | Some b \<Rightarrow> min b queueSize)
      in (case dequeueLoop_arr dequeueLimit [] q of
            (elements, q') \<Rightarrow> (elements, if isEmpty_arr q' then clear_arr q' else q')))"

definition enqueue_arr :: "'a \<Rightarrow> 'a FifoQueueAsync_arr \<Rightarrow> 'a FifoQueueAsync_arr" where
  "enqueue_arr element q =
     (let q1 = q\<lparr>items := (items q)(rear q := Some element)\<rparr>
      in q1\<lparr>rear := rear q1 + 1\<rparr>)"

definition dequeueWorker_arr :: "'a FifoQueueAsync_arr \<Rightarrow> 'a FifoQueueAsync_arr" where
  "dequeueWorker_arr q =
     (if typeof_function (dequeueWorkerCallback_arr q) then
        (case getDequeueElements_arr None q of
           (elements, q') \<Rightarrow> q'\<lparr>calls_arr := calls_arr q' @ [(elements, isEmpty_arr q')]\<rparr>)
      else q)"

definition dequeue_arr :: "int option \<Rightarrow> 'a FifoQueueAsync_arr \<Rightarrow> 'a jsval \<times> 'a FifoQueueAsync_arr" where
  "dequeue_arr batchSize q =
     (if dequeueWorkerCallback_arr q \<noteq> CbNull \<and> typeof_function (dequeueWorkerCallback_arr q) then
        (JUndefined, dequeueWorker_arr q)
      else
        (case getDequeueElements_arr batchSize q of
           (elements, q') \<Rightarrow> (JArray elements, q')))"

definition peek_arr :: "'a FifoQueueAsync_arr \<Rightarrow> 'a jsval" where
  "peek_arr q =
     (if isEmpty_arr q then JNull
      else (case items q (front q) of None \<Rightarrow> JUndefined | Some v \<Rightarrow> JElem v))"

subsection \<open>The synchronous API, on both implementations\<close>

datatype 'a sync_call =
    SEnqueue 'a
  | SDequeue "int option"
  | SPeek
  | SSize
  | SIsEmpty
  | SClear

fun call_of :: "'a sync_call \<Rightarrow> 'a call" where
  "call_of (SEnqueue v) = Enqueue v"
| "call_of (SDequeue b) = Dequeue b"
| "call_of SPeek = Peek"
| "call_of SSize = Size"
| "call_of SIsEmpty = IsEmpty"
| "call_of SClear = Clear"

fun step_arr :: "'a sync_call \<Rightarrow> 'a FifoQueueAsync_arr \<Rightarrow> 'a jsval \<times> 'a FifoQueueAsync_arr" where
  "step_arr (SEnqueue v) q = (JUndefined, enqueue_arr v q)"
| "step_arr (SDequeue b) q = dequeue_arr b q"
| "step_arr SPeek q = (peek_arr q, q)"
| "step_arr SSize q = (JNum (size_arr q), q)"
| "step_arr SIsEmpty q = (JBool (isEmpty_arr q), q)"
| "step_arr SClear q = (JUndefined, clear_arr q)"

fun run_arr :: "'a sync_call list \<Rightarrow> 'a FifoQueueAsync_arr \<Rightarrow> 'a jsval list \<times> 'a FifoQueueAsync_arr" where
  "run_arr [] q = ([], q)"
| "run_arr (c # cs) q =
     (case step_arr c q of
        (r, q') \<Rightarrow> (case run_arr cs q' of (rs, q'') \<Rightarrow> (r # rs, q'')))"

text \<open>The invariant of the array representation and the elements it holds.\<close>

definition arr_inv :: "'a FifoQueueAsync_arr \<Rightarrow> bool" where
  "arr_inv q = (front q \<le> rear q \<and> list_all (\<lambda>i. items q i \<noteq> None) [front q..rear q - 1])"

definition contents_arr :: "'a FifoQueueAsync_arr \<Rightarrow> 'a list" where
  "contents_arr q = map (\<lambda>i. the (items q i)) [front q..rear q - 1]"

text \<open>
  The batch size a call of \<open>getDequeueElements\<close> works with: its argument, or the
  configured \<open>dequeueBatchSize\<close> when the argument is \<open>null\<close>.
\<close>

definition requested :: "int option \<Rightarrow> 'a FifoQueueAsync \<Rightarrow> int" where
  "requested batchSize q = (case batchSize of None \<Rightarrow> dequeueBatchSize q | Some b \<Rightarrow> b)"

subsection \<open>The queue as a list\<close>

text \<open>
  The common abstraction of the two implementations: the list of the elements held,
  oldest first. \<open>list_step\<close> gives what a synchronous call returns and the list it leaves
  when no worker is configured, for the configured batch size \<open>bs\<close>; \<open>list_run\<close> is the
  sequence of values a sequence of calls returns.
\<close>

fun list_step :: "int \<Rightarrow> 'a sync_call \<Rightarrow> 'a list \<Rightarrow> 'a jsval \<times> 'a list" where
  "list_step bs (SEnqueue v) xs = (JUndefined, xs @ [v])"
| "list_step bs (SDequeue b) xs =
     (let n = nat (min (case b of None \<Rightarrow> bs | Some k \<Rightarrow> k) (int (length xs)))
      in (JArray (map JElem (take n xs)), drop n xs))"
| "list_step bs SPeek xs = ((case xs of [] \<Rightarrow> JNull | x # ys \<Rightarrow> JElem x), xs)"
| "list_step bs SSize xs = (JNum (int (length xs)), xs)"
| "list_step bs SIsEmpty xs = (JBool (length xs = 0), xs)"
| "list_step bs SClear xs = (JUndefined, [])"

fun list_run :: "int \<Rightarrow> 'a sync_call list \<Rightarrow> 'a list \<Rightarrow> 'a jsval list" where
  "list_run bs [] xs = []"
| "list_run bs (c # cs) xs = (case list_step bs c xs of (r, xs') \<Rightarrow> r # list_run bs cs xs')"

text \<open>The part of the drain policy the array queue's synchronous methods read.\<close>

definition policy_arr :: "'a FifoQueueAsync_arr \<Rightarrow> callback \<times> int" where
  "policy_arr q = (dequeueWorkerCallback_arr q, dequeueBatchSize_arr q)"

section \<open>The chain of nodes\<close>

lemma chain_length: "chain h p n = Some as \<Longrightarrow> length as = n"
  by (induction n arbitrary: p as) (auto split: option.splits if_splits)

lemma chain_valid: "chain h p n = Some as \<Longrightarrow> a \<in> set as \<Longrightarrow> a < length h"
  by (induction n arbitrary: p as) (auto split: option.splits if_splits)

lemma chain_Cons:
  "chain h p n = Some (a # as) \<Longrightarrow>
     p = Some a \<and> a < length h \<and> (\<exists>m. n = Suc m \<and> chain h (node_next (h ! a)) m = Some as)"
  by (cases n) (auto split: option.splits if_splits)

lemma chain_Nil: "chain h p n = Some [] \<Longrightarrow> p = None \<and> n = 0"
  by (cases n) (auto split: option.splits if_splits)

lemma chain_append_heap: "chain h p n = Some as \<Longrightarrow> chain (h @ xs) p n = Some as"
  by (induction n arbitrary: p as) (auto split: option.splits if_splits simp: nth_append)

lemma chain_snoc:
  "chain h p n = Some as \<Longrightarrow> as \<noteq> [] \<Longrightarrow> distinct as \<Longrightarrow> new < length h \<Longrightarrow>
   new \<notin> set as \<Longrightarrow> node_next (h ! new) = None \<Longrightarrow>
   chain (h[last as := (h ! last as)\<lparr>node_next := Some new\<rparr>]) p (Suc n) = Some (as @ [new])"
proof (induction n arbitrary: p as)
  case 0
  then show ?case by (auto split: if_splits)
next
  case (Suc m)
  from Suc.prems(1,2) obtain a bs where as: "as = a # bs"
    by (cases as) auto
  from Suc.prems(1) as have p: "p = Some a" and a: "a < length h"
    and bs: "chain h (node_next (h ! a)) m = Some bs"
    using chain_Cons[of h p "Suc m" a bs] by auto
  show ?case
  proof (cases "bs = []")
    case True
    with bs have "m = 0" "node_next (h ! a) = None" using chain_Nil by fastforce+
    with True as p a Suc.prems show ?thesis by auto
  next
    case False
    with as Suc.prems have neq: "a \<noteq> last bs" by auto
    have "chain (h[last bs := (h ! last bs)\<lparr>node_next := Some new\<rparr>]) (node_next (h ! a)) (Suc m)
            = Some (bs @ [new])"
      using Suc.IH[OF bs False] Suc.prems as by auto
    with False as p a neq show ?thesis by (simp del: chain.simps(2) add: chain.simps(2)[of _ "Some a"])
  qed
qed

section \<open>The methods on well-formed queues\<close>

lemma queue_inv_chain:
  "queue_inv q \<Longrightarrow> \<exists>as. chain (heap q) (head q) (nat (length_q q)) = Some as \<and> distinct as \<and>
     tail q = (if as = [] then None else Some (last as)) \<and> 0 \<le> length_q q \<and>
     contents q = map (\<lambda>a. node_value (heap q ! a)) as"
  by (auto simp: queue_inv_def contents_def split: option.splits)

lemma length_contents: "queue_inv q \<Longrightarrow> length_q q = int (length (contents q))"
  using queue_inv_chain[of q] chain_length by fastforce

lemma queue_inv_new: "queue_inv (new_FifoQueueAsync w b d m)"
  by (simp add: queue_inv_def new_FifoQueueAsync_def)

lemma contents_new: "contents (new_FifoQueueAsync w b d m) = []"
  by (simp add: contents_def new_FifoQueueAsync_def)

lemma queue_inv_empty: "queue_inv q \<Longrightarrow> length_q q = 0 \<Longrightarrow> head q = None \<and> tail q = None"
  by (auto simp: queue_inv_def split: option.splits if_splits)

lemma clear_empty: "queue_inv q \<Longrightarrow> length_q q = 0 \<Longrightarrow> clear q = q"
  using queue_inv_empty[of q] by (simp add: clear_def)

lemma queue_inv_clear: "queue_inv (clear q)"
  by (simp add: queue_inv_def clear_def)

lemma contents_clear: "contents (clear q) = []"
  by (simp add: contents_def clear_def)

lemma frame_clear: "frame (clear q) = frame q"
  by (simp add: frame_def clear_def)

lemma enqueue_abs:
  assumes "queue_inv q"
  shows "\<exists>q'. enqueue v q = Inr q' \<and> queue_inv q' \<and> contents q' = contents q @ [v] \<and>
           frame q' = frame q"
proof -
  from queue_inv_chain[OF assms] obtain as where
    ch: "chain (heap q) (head q) (nat (length_q q)) = Some as" and d: "distinct as" and
    t: "tail q = (if as = [] then None else Some (last as))" and nn: "0 \<le> length_q q" and
    c: "contents q = map (\<lambda>a. node_value (heap q ! a)) as"
    by blast
  have len: "length as = nat (length_q q)" using chain_length[OF ch] .
  have valid: "\<And>a. a \<in> set as \<Longrightarrow> a < length (heap q)" using chain_valid[OF ch] .
  show ?thesis
  proof (cases "length_q q = 0")
    case True
    then show ?thesis using c len
      by (simp add: enqueue_def Let_def queue_inv_def contents_def new_Node_def frame_def)
  next
    case False
    with len nn have ne: "as \<noteq> []" by auto
    let ?new = "length (heap q)"
    let ?h0 = "heap q @ [new_Node v]"
    let ?t = "last as"
    have tv: "?t < length (heap q)" using valid ne by simp
    have ch0: "chain ?h0 (head q) (nat (length_q q)) = Some as"
      using chain_append_heap[OF ch] .
    have notin: "?new \<notin> set as" using valid by blast
    have ch1: "chain (?h0[?t := (?h0 ! ?t)\<lparr>node_next := Some ?new\<rparr>]) (head q) (Suc (nat (length_q q)))
                 = Some (as @ [?new])"
      by (rule chain_snoc[OF ch0 ne d _ notin]) (simp_all add: new_Node_def)
    have suc: "nat (length_q q + 1) = Suc (nat (length_q q))" using nn by simp
    have vals: "map (\<lambda>a. node_value ((?h0[?t := (?h0 ! ?t)\<lparr>node_next := Some ?new\<rparr>]) ! a)) as
                = map (\<lambda>a. node_value (heap q ! a)) as"
      using valid tv by (auto simp: nth_append nth_list_update)
    have newval: "node_value ((?h0[?t := (?h0 ! ?t)\<lparr>node_next := Some ?new\<rparr>]) ! ?new) = v"
      using tv by (simp add: nth_append new_Node_def)
    have tl: "tail q = Some ?t" using t ne by simp
    define q' where "q' = q\<lparr>heap := ?h0[?t := (?h0 ! ?t)\<lparr>node_next := Some ?new\<rparr>],
                            tail := Some ?new, length_q := length_q q + 1\<rparr>"
    have e: "enqueue v q = Inr q'"
      using False tl tv by (simp add: enqueue_def Let_def deref_def q'_def)
    have i: "queue_inv q'"
      using ch1 d notin nn by (simp add: queue_inv_def q'_def suc del: chain.simps)
    have c': "contents q' = contents q @ [v]"
      using ch1 c vals newval by (simp add: contents_def q'_def suc del: chain.simps)
    have f: "frame q' = frame q" by (simp add: frame_def q'_def)
    from e i c' f show ?thesis by blast
  qed
qed

lemma getDequeueElement_empty:
  "length_q q = 0 \<Longrightarrow> getDequeueElement q = Inr (JNull, q)"
  by (simp add: getDequeueElement_def)

lemma getDequeueElement_abs:
  assumes "queue_inv q" and "contents q = x # xs"
  shows "\<exists>q'. getDequeueElement q = Inr (JElem x, q') \<and> queue_inv q' \<and> contents q' = xs \<and>
           frame q' = frame q \<and> length_q q' = length_q q - 1"
proof -
  from queue_inv_chain[OF assms(1)] obtain as where
    ch: "chain (heap q) (head q) (nat (length_q q)) = Some as" and d: "distinct as" and
    t: "tail q = (if as = [] then None else Some (last as))" and nn: "0 \<le> length_q q" and
    c: "contents q = map (\<lambda>a. node_value (heap q ! a)) as"
    by blast
  from c assms(2) obtain a bs where as: "as = a # bs" and x: "x = node_value (heap q ! a)"
    and xs: "xs = map (\<lambda>a. node_value (heap q ! a)) bs" by auto
  have "chain (heap q) (head q) (nat (length_q q)) = Some (a # bs)" using ch as by simp
  from chain_Cons[OF this] obtain m where h: "head q = Some a" and a: "a < length (heap q)"
    and n: "nat (length_q q) = Suc m" and bs: "chain (heap q) (node_next (heap q ! a)) m = Some bs"
    by blast
  have m: "nat (length_q q - 1) = m" using n by simp
  have nz: "length_q q \<noteq> 0" using n by auto
  have ge: "0 \<le> length_q q - 1" using n by simp
  have r: "deref (heap q) (head q) = Inr a" using h a by (simp add: deref_def)
  show ?thesis
  proof (cases "bs = []")
    case True
    with t as h have ht: "head q = tail q" by simp
    from True bs have nx: "node_next (heap q ! a) = None" and m0: "m = 0"
      using chain_Nil by fastforce+
    define q' where "q' = q\<lparr>tail := None, head := None, length_q := length_q q - 1\<rparr>"
    have e: "getDequeueElement q = Inr (JElem x, q')"
      using nz ht r nx x by (simp add: getDequeueElement_def Let_def q'_def)
    have i: "queue_inv q'" using m m0 ge by (simp add: queue_inv_def q'_def)
    have c': "contents q' = xs" using m m0 xs True by (simp add: contents_def q'_def)
    have f: "frame q' = frame q" by (simp add: frame_def q'_def)
    have l: "length_q q' = length_q q - 1" by (simp add: q'_def)
    from e i c' f l show ?thesis by blast
  next
    case False
    with t as h d have ht: "head q \<noteq> tail q" by auto
    define q' where "q' = q\<lparr>head := node_next (heap q ! a), length_q := length_q q - 1\<rparr>"
    have e: "getDequeueElement q = Inr (JElem x, q')"
      using nz ht r x by (simp add: getDequeueElement_def Let_def q'_def)
    have tl: "tail q = Some (last bs)" using t as False by simp
    have db: "distinct bs" using d as by simp
    have i: "queue_inv q'" using m ge bs tl db False by (simp add: queue_inv_def q'_def)
    have c': "contents q' = xs" using m xs bs by (simp add: contents_def q'_def)
    have f: "frame q' = frame q" by (simp add: frame_def q'_def)
    have l: "length_q q' = length_q q - 1" by (simp add: q'_def)
    from e i c' f l show ?thesis by blast
  qed
qed

lemma dequeueLoop_abs:
  "queue_inv q \<Longrightarrow> i \<le> int (length (contents q)) \<Longrightarrow>
   \<exists>q'. dequeueLoop i acc q = Inr (acc @ map JElem (take (nat i) (contents q)), q') \<and>
        queue_inv q' \<and> contents q' = drop (nat i) (contents q) \<and> frame q' = frame q"
proof (induction "nat i" arbitrary: i acc q)
  case 0
  then have "\<not> i > 0" by simp
  then have "dequeueLoop i acc q = Inr (acc, q)"
    by (subst dequeueLoop.simps) simp
  with 0 show ?case by simp
next
  case (Suc n)
  then have pos: "i > 0" and n: "nat (i - 1) = n" by auto
  with Suc.prems obtain x xs where c: "contents q = x # xs"
    by (cases "contents q") auto
  from getDequeueElement_abs[OF Suc.prems(1) c] obtain q1 where
    g: "getDequeueElement q = Inr (JElem x, q1)" and i1: "queue_inv q1" and c1: "contents q1 = xs"
    and f1: "frame q1 = frame q" by blast
  have le: "i - 1 \<le> int (length (contents q1))" using Suc.prems(2) c c1 by simp
  from Suc.hyps(1)[OF n[symmetric] i1 le, of "acc @ [JElem x]"] obtain q' where
    l: "dequeueLoop (i - 1) (acc @ [JElem x]) q1 =
          Inr ((acc @ [JElem x]) @ map JElem (take (nat (i - 1)) (contents q1)), q')"
    and i': "queue_inv q'" and c': "contents q' = drop (nat (i - 1)) (contents q1)"
    and f': "frame q' = frame q1" by blast
  have s: "nat i = Suc n" using Suc.hyps(2) by simp
  have "dequeueLoop i acc q = dequeueLoop (i - 1) (acc @ [JElem x]) q1"
    using pos g by (subst dequeueLoop.simps) simp
  with l i' c' f' f1 c c1 n s show ?case by simp
qed

lemma getDequeueElements_abs:
  assumes "queue_inv q"
  shows "\<exists>q'. getDequeueElements b q =
              Inr (map JElem (take (nat (min (requested b q) (length_q q))) (contents q)), q') \<and>
           queue_inv q' \<and>
           contents q' = drop (nat (min (requested b q) (length_q q))) (contents q) \<and>
           frame q' = frame q"
proof -
  let ?lim = "min (requested b q) (length_q q)"
  have lim: "(case b of None \<Rightarrow> min (dequeueBatchSize q) (length_q q) | Some k \<Rightarrow> min k (length_q q)) = ?lim"
    by (simp add: requested_def split: option.splits)
  have "?lim \<le> int (length (contents q))" using length_contents[OF assms] by simp
  from dequeueLoop_abs[OF assms this, of "[]"] obtain q1 where
    l: "dequeueLoop ?lim [] q = Inr (map JElem (take (nat ?lim) (contents q)), q1)"
    and i1: "queue_inv q1" and c1: "contents q1 = drop (nat ?lim) (contents q)"
    and f1: "frame q1 = frame q" by auto
  have cl: "(if length_q q1 = 0 then clear q1 else q1) = q1"
    using clear_empty[OF i1] by simp
  have "getDequeueElements b q = Inr (map JElem (take (nat ?lim) (contents q)), q1)"
    unfolding getDequeueElements_def Let_def lim l using cl by simp
  with i1 c1 f1 show ?thesis by blast
qed

lemma peek_abs:
  assumes "queue_inv q"
  shows "peek q = Inr (case contents q of [] \<Rightarrow> JNull | x # xs \<Rightarrow> JElem x)"
proof (cases "contents q")
  case Nil
  then have "length_q q = 0" using length_contents[OF assms] by simp
  with Nil show ?thesis by (simp add: peek_def isEmpty_def)
next
  case (Cons x xs)
  then have nz: "length_q q \<noteq> 0" using length_contents[OF assms] by simp
  from queue_inv_chain[OF assms] obtain as where
    ch: "chain (heap q) (head q) (nat (length_q q)) = Some as" and
    c: "contents q = map (\<lambda>a. node_value (heap q ! a)) as"
    by blast
  from c Cons obtain a bs where as: "as = a # bs" and x: "x = node_value (heap q ! a)" by auto
  have "chain (heap q) (head q) (nat (length_q q)) = Some (a # bs)" using ch as by simp
  from chain_Cons[OF this] have "head q = Some a" "a < length (heap q)" by blast+
  with nz x Cons show ?thesis by (simp add: peek_def isEmpty_def deref_def)
qed

lemma isEmpty_abs: "queue_inv q \<Longrightarrow> isEmpty q = (contents q = [])"
  using length_contents[of q] by (simp add: isEmpty_def)

lemma size_abs: "queue_inv q \<Longrightarrow> size_q q = int (length (contents q))"
  using length_contents[of q] by (simp add: size_q_def)

lemma structural_of_inv:
  assumes "queue_inv q"
  shows "structural_inv q"
proof -
  from queue_inv_chain[OF assms] obtain as where
    ch: "chain (heap q) (head q) (nat (length_q q)) = Some as" and d: "distinct as" and
    t: "tail q = (if as = [] then None else Some (last as))" and nn: "0 \<le> length_q q"
    by blast
  have len: "length as = nat (length_q q)" using chain_length[OF ch] .
  show ?thesis
  proof (cases as)
    case Nil
    with ch have "head q = None" using chain_Nil by fastforce
    with Nil t len nn show ?thesis by (simp add: structural_inv_def)
  next
    case (Cons a bs)
    with ch have "chain (heap q) (head q) (nat (length_q q)) = Some (a # bs)" by simp
    from chain_Cons[OF this] have h: "head q = Some a" by blast
    have "(Some a = tail q) = (bs = [])" using t Cons d by auto
    moreover have "length_q q = 1 + int (length bs)" using len Cons nn by simp
    then have "(length_q q \<le> 1) = (bs = [])" by simp
    moreover have "length_q q \<noteq> 0" using len Cons by auto
    ultimately show ?thesis using h by (simp add: structural_inv_def)
  qed
qed

lemma queue_inv_calls [simp]: "queue_inv (q\<lparr>calls := c\<rparr>) = queue_inv q"
  by (simp add: queue_inv_def split: option.splits)

lemma queue_inv_timers [simp]: "queue_inv (q\<lparr>timers := c\<rparr>) = queue_inv q"
  by (simp add: queue_inv_def split: option.splits)

lemma queue_inv_manualStop [simp]: "queue_inv (q\<lparr>manualStop := c\<rparr>) = queue_inv q"
  by (simp add: queue_inv_def split: option.splits)

lemma queue_inv_callback [simp]: "queue_inv (q\<lparr>dequeueWorkerCallback := c\<rparr>) = queue_inv q"
  by (simp add: queue_inv_def split: option.splits)

lemma contents_calls [simp]: "contents (q\<lparr>calls := c\<rparr>) = contents q"
  by (simp add: contents_def split: option.splits)

lemma contents_timers [simp]: "contents (q\<lparr>timers := c\<rparr>) = contents q"
  by (simp add: contents_def split: option.splits)

lemma contents_manualStop [simp]: "contents (q\<lparr>manualStop := c\<rparr>) = contents q"
  by (simp add: contents_def split: option.splits)

lemma frame_fields:
  "frame q' = frame q \<Longrightarrow>
     dequeueWorkerCallback q' = dequeueWorkerCallback q \<and> dequeueBatchSize q' = dequeueBatchSize q \<and>
     dequeueDelay q' = dequeueDelay q \<and> manualStop q' = manualStop q \<and> calls q' = calls q \<and>
     timers q' = timers q"
  by (simp add: frame_def)

lemma dequeueWorker_abs:
  assumes "queue_inv q" and "dequeueWorkerCallback q = CbFunction"
  shows "\<exists>es q1. getDequeueElements None q = Inr (es, q1) \<and> queue_inv q1 \<and> frame q1 = frame q \<and>
           dequeueWorker q = Inr (q1\<lparr>calls := calls q @ [(es, length_q q1 = 0)]\<rparr>)"
proof -
  from getDequeueElements_abs[OF assms(1), of None] obtain es q1 where
    g: "getDequeueElements None q = Inr (es, q1)" and i: "queue_inv q1" and f: "frame q1 = frame q"
    by blast
  have "calls q1 = calls q" using frame_fields[OF f] by simp
  then have "dequeueWorker q = Inr (q1\<lparr>calls := calls q @ [(es, length_q q1 = 0)]\<rparr>)"
    using assms(2) g by (simp add: dequeueWorker_def typeof_function_def)
  with g i f show ?thesis by blast
qed

lemma dequeueWorker_inv:
  assumes "queue_inv q"
  shows "\<exists>q'. dequeueWorker q = Inr q' \<and> queue_inv q'"
proof (cases "dequeueWorkerCallback q = CbFunction")
  case True
  from dequeueWorker_abs[OF assms True] show ?thesis by auto
next
  case False
  then show ?thesis using assms by (simp add: dequeueWorker_def typeof_function_def)
qed

lemma dequeue_inv:
  assumes "queue_inv q"
  shows "\<exists>r q'. dequeue b q = Inr (r, q') \<and> queue_inv q'"
proof (cases "dequeueWorkerCallback q = CbFunction")
  case True
  from dequeueWorker_inv[OF assms] obtain q' where "dequeueWorker q = Inr q'" "queue_inv q'" by blast
  with True show ?thesis by (simp add: dequeue_def typeof_function_def)
next
  case False
  from getDequeueElements_abs[OF assms, of b] obtain es q' where
    "getDequeueElements b q = Inr (es, q')" "queue_inv q'" by blast
  with False show ?thesis by (simp add: dequeue_def typeof_function_def)
qed

lemma startAutoDequeue_inv:
  assumes "queue_inv q"
  shows "\<exists>r q'. startAutoDequeue q = Inr (r, q') \<and> queue_inv q'"
proof -
  from dequeueWorker_inv[OF assms] obtain q' where "dequeueWorker q = Inr q'" "queue_inv q'" by blast
  with assms show ?thesis by (simp add: startAutoDequeue_def setTimeout_def)
qed

lemma fireTimer_inv:
  assumes "queue_inv q"
  shows "\<exists>q'. fireTimer q = Inr q' \<and> queue_inv q'"
proof (cases "timers q")
  case Nil
  with assms show ?thesis by (simp add: fireTimer_def)
next
  case (Cons d ds)
  have "queue_inv (q\<lparr>timers := ds\<rparr>)" using assms by simp
  from startAutoDequeue_inv[OF this] obtain r q' where
    "startAutoDequeue (q\<lparr>timers := ds\<rparr>) = Inr (r, q')" "queue_inv q'" by blast
  with Cons show ?thesis by (simp add: fireTimer_def)
qed

lemma step_inv:
  assumes "queue_inv q"
  shows "\<exists>r q'. step c q = Inr (r, q') \<and> queue_inv q'"
proof (cases c)
  case (Enqueue v)
  from enqueue_abs[OF assms, of v] obtain q' where "enqueue v q = Inr q'" "queue_inv q'" by blast
  with Enqueue show ?thesis by simp
next
  case GetDequeueElement
  show ?thesis
  proof (cases "contents q")
    case Nil
    then have "length_q q = 0" using length_contents[OF assms] by simp
    with GetDequeueElement assms show ?thesis by (simp add: getDequeueElement_empty)
  next
    case (Cons x xs)
    from getDequeueElement_abs[OF assms Cons] GetDequeueElement show ?thesis by auto
  qed
next
  case (GetDequeueElements b)
  from getDequeueElements_abs[OF assms, of b] obtain es q' where
    "getDequeueElements b q = Inr (es, q')" "queue_inv q'" by blast
  with GetDequeueElements show ?thesis by simp
next
  case (Dequeue b)
  with dequeue_inv[OF assms, of b] show ?thesis by simp
next
  case DequeueWorker
  from dequeueWorker_inv[OF assms] obtain q' where "dequeueWorker q = Inr q'" "queue_inv q'" by blast
  with DequeueWorker show ?thesis by simp
next
  case StartAutoDequeue
  with startAutoDequeue_inv[OF assms] show ?thesis by simp
next
  case Peek
  with peek_abs[OF assms] assms show ?thesis by simp
next
  case IsEmpty
  with assms show ?thesis by simp
next
  case Size
  with assms show ?thesis by simp
next
  case Clear
  then show ?thesis by (simp add: queue_inv_clear)
next
  case RemoveDequeueWorkerCallback
  with assms show ?thesis by (simp add: removeDequeueWorkerCallback_def)
next
  case StopAutoDequeue
  with assms show ?thesis by (simp add: stopAutoDequeue_def)
next
  case FireTimer
  from fireTimer_inv[OF assms] obtain q' where "fireTimer q = Inr q'" "queue_inv q'" by blast
  with FireTimer show ?thesis by simp
qed

lemma run_inv:
  "queue_inv q \<Longrightarrow> \<exists>rs q'. run cs q = Inr (rs, q') \<and> queue_inv q'"
proof (induction cs arbitrary: q)
  case Nil
  then show ?case by simp
next
  case (Cons c cs)
  from step_inv[OF Cons.prems, of c] obtain r q1 where
    s: "step c q = Inr (r, q1)" and i: "queue_inv q1" by blast
  from Cons.IH[OF i] obtain rs q' where "run cs q1 = Inr (rs, q')" "queue_inv q'" by blast
  with s show ?case by simp
qed

text \<open>
  Claim C7. The structural invariants hold in the initial state and are preserved by every
  operation: whatever sequence of calls is made on a new queue (any method, and also a
  pending timer firing), no call raises, and in the state reached \<open>length\<close> is 0 exactly
  when \<open>head\<close> and \<open>tail\<close> are both \<open>null\<close>, and \<open>head\<close> and \<open>tail\<close> are the same
  reference exactly when \<open>length\<close> is at most 1.
\<close>

theorem structural_invariants:
  "\<exists>rs q. run cs (new_FifoQueueAsync w b d m) = Inr (rs, q) \<and> structural_inv q"
  using run_inv[OF queue_inv_new] structural_of_inv by blast

theorem structural_invariants_witness:
  "\<exists>rs q. run [Enqueue (1::nat), Enqueue 2, Dequeue (Some 1), Enqueue 3, Clear, Enqueue 4]
              (new_FifoQueueAsync CbNull 1 10 False) = Inr (rs, q) \<and> structural_inv q"
  by (rule structural_invariants)


lemma dequeue_abs:
  assumes "queue_inv q" and "dequeueWorkerCallback q \<noteq> CbFunction"
  shows "\<exists>q'. dequeue b q =
              Inr (JArray (map JElem (take (nat (min (requested b q) (length_q q))) (contents q))), q') \<and>
           queue_inv q' \<and>
           contents q' = drop (nat (min (requested b q) (length_q q))) (contents q) \<and>
           frame q' = frame q"
proof -
  from getDequeueElements_abs[OF assms(1), of b] obtain q' where
    "getDequeueElements b q =
       Inr (map JElem (take (nat (min (requested b q) (length_q q))) (contents q)), q')"
    "queue_inv q'" "contents q' = drop (nat (min (requested b q) (length_q q))) (contents q)"
    "frame q' = frame q" by blast
  with assms(2) show ?thesis by (simp add: dequeue_def typeof_function_def)
qed





section \<open>Batches, the worker and the auto-dequeue loop\<close>

lemma dequeueLoop_done: "i \<le> 0 \<Longrightarrow> dequeueLoop i acc q = Inr (acc, q)"
  by (subst dequeueLoop.simps) simp

lemma startAutoDequeue_round:
  assumes "queue_inv q" and "dequeueWorkerCallback q = CbFunction"
    and "manualStop q \<or> length_q q \<noteq> 0"
  shows "\<exists>q'. startAutoDequeue q = Inr (JUndefined, q') \<and> queue_inv q' \<and>
           contents q' = drop (nat (min (dequeueBatchSize q) (length_q q))) (contents q) \<and>
           calls q' = calls q @
             [(map JElem (take (nat (min (dequeueBatchSize q) (length_q q))) (contents q)),
               length_q q' = 0)] \<and>
           timers q' = timers q @ [dequeueDelay q] \<and> policy q' = policy q"
proof -
  let ?n = "nat (min (dequeueBatchSize q) (length_q q))"
  have rq: "requested None q = dequeueBatchSize q" by (simp add: requested_def)
  from getDequeueElements_abs[OF assms(1), of None] obtain q1 where
    g: "getDequeueElements None q = Inr (map JElem (take ?n (contents q)), q1)" and i: "queue_inv q1"
    and c: "contents q1 = drop ?n (contents q)" and f: "frame q1 = frame q"
    unfolding rq by blast
  note ff = frame_fields[OF f]
  define q' where "q' = q1\<lparr>calls := calls q1 @ [(map JElem (take ?n (contents q)), length_q q1 = 0)],
                           timers := timers q1 @ [dequeueDelay q1]\<rparr>"
  have w: "dequeueWorker q = Inr (q1\<lparr>calls := calls q1 @ [(map JElem (take ?n (contents q)), length_q q1 = 0)]\<rparr>)"
    using assms(2) g by (simp add: dequeueWorker_def typeof_function_def)
  have s: "startAutoDequeue q = Inr (JUndefined, q')"
    using assms(2,3) w by (auto simp: startAutoDequeue_def typeof_function_def setTimeout_def q'_def)
  have "queue_inv q'" using i by (simp add: q'_def)
  moreover have "contents q' = drop ?n (contents q)" using c by (simp add: q'_def)
  moreover have "calls q' = calls q @ [(map JElem (take ?n (contents q)), length_q q' = 0)]"
    using ff by (simp add: q'_def)
  moreover have "timers q' = timers q @ [dequeueDelay q]" using ff by (simp add: q'_def)
  moreover have "policy q' = policy q" using ff by (simp add: q'_def policy_def)
  ultimately show ?thesis using s by blast
qed

lemma startAutoDequeue_idle:
  "dequeueWorkerCallback q = CbFunction \<Longrightarrow> \<not> manualStop q \<Longrightarrow> length_q q = 0 \<Longrightarrow>
   startAutoDequeue q = Inr (JUndefined, q)"
  by (simp add: startAutoDequeue_def typeof_function_def)

text \<open>
  Claim C2, amended. On a well-formed queue of size \<open>S\<close>, \<open>getDequeueElements(k)\<close>
  returns, in FIFO order, the first \<open>max(0, min(k, S))\<close> elements (that is \<open>min(k, S)\<close>
  whenever \<open>k\<close> is not negative, and none when it is), and afterwards \<open>size()\<close> is
  \<open>S - max(0, min(k, S))\<close>; when \<open>k\<close> is \<open>null\<close> the configured \<open>dequeueBatchSize\<close>
  takes its place.
\<close>

theorem dequeue_batch_size:
  assumes "queue_inv q"
  shows "\<exists>es q'. getDequeueElements k q = Inr (es, q') \<and>
           es = map JElem (take (nat (min (requested k q) (size_q q))) (contents q)) \<and>
           int (length es) = max 0 (min (requested k q) (size_q q)) \<and>
           size_q q' = size_q q - max 0 (min (requested k q) (size_q q))"
proof -
  let ?n = "nat (min (requested k q) (length_q q))"
  from getDequeueElements_abs[OF assms, of k] obtain q' where
    g: "getDequeueElements k q = Inr (map JElem (take ?n (contents q)), q')" and i: "queue_inv q'"
    and c: "contents q' = drop ?n (contents q)" by blast
  have l: "length_q q = int (length (contents q))" using length_contents[OF assms] .
  have l': "length_q q' = int (length (contents q'))" using length_contents[OF i] .
  have n: "?n \<le> length (contents q)" using l by simp
  have "int (length (map JElem (take ?n (contents q)))) = max 0 (min (requested k q) (size_q q))"
    using n l by (simp add: size_q_def)
  moreover have "size_q q' = size_q q - max 0 (min (requested k q) (size_q q))"
    using l l' c n by (simp add: size_q_def)
  ultimately show ?thesis using g unfolding size_q_def by blast
qed

theorem dequeue_batch_size_witness:
  "queue_inv \<lparr>heap = [\<lparr>node_value = 7::nat, node_next = Some 1\<rparr>, \<lparr>node_value = 9, node_next = None\<rparr>],
      head = Some 0, tail = Some 1, length_q = 2, dequeueWorkerCallback = CbNull,
      dequeueBatchSize = 1, dequeueDelay = 10, manualStop = False, calls = [], timers = []\<rparr> \<and>
   (\<exists>es q'. getDequeueElements (Some 5)
        \<lparr>heap = [\<lparr>node_value = 7::nat, node_next = Some 1\<rparr>, \<lparr>node_value = 9, node_next = None\<rparr>],
         head = Some 0, tail = Some 1, length_q = 2, dequeueWorkerCallback = CbNull,
         dequeueBatchSize = 1, dequeueDelay = 10, manualStop = False, calls = [], timers = []\<rparr>
        = Inr (es, q') \<and> int (length es) = 2 \<and> size_q q' = 0)"
proof -
  let ?q = "\<lparr>heap = [\<lparr>node_value = 7::nat, node_next = Some 1\<rparr>, \<lparr>node_value = 9, node_next = None\<rparr>],
      head = Some 0, tail = Some 1, length_q = 2, dequeueWorkerCallback = CbNull,
      dequeueBatchSize = 1, dequeueDelay = 10, manualStop = False, calls = [], timers = []\<rparr>"
  have h: "queue_inv ?q" by (simp add: queue_inv_def numeral_2_eq_2)
  from dequeue_batch_size[OF h, of "Some 5"] obtain es q' where
    "getDequeueElements (Some 5) ?q = Inr (es, q')"
    "int (length es) = max 0 (min (requested (Some 5) ?q) (size_q ?q))"
    "size_q q' = size_q ?q - max 0 (min (requested (Some 5) ?q) (size_q ?q))" by blast
  then have "getDequeueElements (Some 5) ?q = Inr (es, q') \<and> int (length es) = 2 \<and> size_q q' = 0"
    by (simp add: requested_def size_q_def)
  with h show ?thesis by blast
qed

text \<open>
  Claim C2 as stated fails for a negative batch size: on a queue of size 1,
  \<open>getDequeueElements(-1)\<close> returns an empty array, not \<open>min(-1, 1) = -1\<close> elements, and
  the size stays 1, not \<open>1 - min(-1, 1) = 2\<close>.
\<close>

theorem dequeue_batch_size_counterexample:
  "returned (run [Enqueue (7::nat), Size, GetDequeueElements (Some (- 1)), Size]
              (new_FifoQueueAsync CbNull 1 10 False)) =
     Some [JUndefined, JNum 1, JArray [], JNum 1] \<and>
   int (length ([] :: nat jsval list)) \<noteq> min (- 1) 1 \<and>
   (1::int) \<noteq> 1 - min (- 1) 1"
proof -
  have "returned (run [Enqueue (7::nat), Size, GetDequeueElements (Some (- 1)), Size]
              (new_FifoQueueAsync CbNull 1 10 False)) =
     Some [JUndefined, JNum 1, JArray [], JNum 1]"
    by code_simp
  then show ?thesis by simp
qed

text \<open>
  Claim C3. On a well-formed queue with a worker set, \<open>dequeue(batchSize)\<close> returns
  \<open>undefined\<close> whatever \<open>batchSize\<close> is, and its effect is one worker-driven extraction:
  the batch is extracted with the configured batch size (\<open>getDequeueElements()\<close>), so it
  is the first \<open>min(dequeueBatchSize, length)\<close> elements in FIFO order (none when that
  number is negative), they are removed from the queue, and exactly one call is added to
  the worker's log, with that batch and with the emptiness of the queue after the
  extraction. With no worker set, \<open>dequeue(batchSize)\<close> returns the array of
  \<open>getDequeueElements(batchSize)\<close>, the first \<open>min(batchSize, length)\<close> elements, and the
  worker's log is unchanged.
\<close>

theorem dequeue_worker_coupling:
  assumes "queue_inv q"
  shows "(dequeueWorkerCallback q = CbFunction \<longrightarrow>
            (\<exists>es q1. getDequeueElements None q = Inr (es, q1) \<and> calls q1 = calls q \<and>
               es = map JElem (take (nat (min (dequeueBatchSize q) (length_q q))) (contents q)) \<and>
               queue_inv q1 \<and>
               contents q1 = drop (nat (min (dequeueBatchSize q) (length_q q))) (contents q) \<and>
               length_q q1 = length_q q - max 0 (min (dequeueBatchSize q) (length_q q)) \<and>
               dequeue b q = Inr (JUndefined, q1\<lparr>calls := calls q @ [(es, length_q q1 = 0)]\<rparr>))) \<and>
         (dequeueWorkerCallback q \<noteq> CbFunction \<longrightarrow>
            (\<exists>es q1. getDequeueElements b q = Inr (es, q1) \<and> calls q1 = calls q \<and>
               es = map JElem (take (nat (min (requested b q) (length_q q))) (contents q)) \<and>
               queue_inv q1 \<and>
               contents q1 = drop (nat (min (requested b q) (length_q q))) (contents q) \<and>
               length_q q1 = length_q q - max 0 (min (requested b q) (length_q q)) \<and>
               dequeue b q = Inr (JArray es, q1)))"
proof (intro conjI impI)
  assume w: "dequeueWorkerCallback q = CbFunction"
  let ?n = "nat (min (dequeueBatchSize q) (length_q q))"
  have rq: "requested None q = dequeueBatchSize q" by (simp add: requested_def)
  from getDequeueElements_abs[OF assms, of None] obtain q1 where
    g: "getDequeueElements None q = Inr (map JElem (take ?n (contents q)), q1)"
    and i: "queue_inv q1" and c: "contents q1 = drop ?n (contents q)" and f: "frame q1 = frame q"
    unfolding rq by blast
  have k: "calls q1 = calls q" using frame_fields[OF f] by simp
  have l: "length_q q1 = length_q q - max 0 (min (dequeueBatchSize q) (length_q q))"
    using length_contents[OF assms] length_contents[OF i] c by simp
  have "dequeueWorker q =
          Inr (q1\<lparr>calls := calls q @ [(map JElem (take ?n (contents q)), length_q q1 = 0)]\<rparr>)"
    using w g k by (simp add: dequeueWorker_def typeof_function_def)
  then have "dequeue b q =
          Inr (JUndefined, q1\<lparr>calls := calls q @ [(map JElem (take ?n (contents q)), length_q q1 = 0)]\<rparr>)"
    using w by (simp add: dequeue_def typeof_function_def)
  with g k i c l
  show "\<exists>es q1. getDequeueElements None q = Inr (es, q1) \<and> calls q1 = calls q \<and>
               es = map JElem (take (nat (min (dequeueBatchSize q) (length_q q))) (contents q)) \<and>
               queue_inv q1 \<and>
               contents q1 = drop (nat (min (dequeueBatchSize q) (length_q q))) (contents q) \<and>
               length_q q1 = length_q q - max 0 (min (dequeueBatchSize q) (length_q q)) \<and>
               dequeue b q = Inr (JUndefined, q1\<lparr>calls := calls q @ [(es, length_q q1 = 0)]\<rparr>)"
    by blast
next
  assume w: "dequeueWorkerCallback q \<noteq> CbFunction"
  let ?n = "nat (min (requested b q) (length_q q))"
  from getDequeueElements_abs[OF assms, of b] obtain q1 where
    g: "getDequeueElements b q = Inr (map JElem (take ?n (contents q)), q1)"
    and i: "queue_inv q1" and c: "contents q1 = drop ?n (contents q)" and f: "frame q1 = frame q"
    by blast
  have k: "calls q1 = calls q" using frame_fields[OF f] by simp
  have l: "length_q q1 = length_q q - max 0 (min (requested b q) (length_q q))"
    using length_contents[OF assms] length_contents[OF i] c by simp
  have "dequeue b q = Inr (JArray (map JElem (take ?n (contents q))), q1)"
    using w g by (simp add: dequeue_def typeof_function_def)
  with g k i c l
  show "\<exists>es q1. getDequeueElements b q = Inr (es, q1) \<and> calls q1 = calls q \<and>
               es = map JElem (take (nat (min (requested b q) (length_q q))) (contents q)) \<and>
               queue_inv q1 \<and>
               contents q1 = drop (nat (min (requested b q) (length_q q))) (contents q) \<and>
               length_q q1 = length_q q - max 0 (min (requested b q) (length_q q)) \<and>
               dequeue b q = Inr (JArray es, q1)"
    by blast
qed

theorem dequeue_worker_coupling_witness:
  "queue_inv
     \<lparr>heap = [\<lparr>node_value = 7::nat, node_next = Some 1\<rparr>, \<lparr>node_value = 9, node_next = Some 2\<rparr>,
              \<lparr>node_value = 4, node_next = None\<rparr>],
      head = Some 0, tail = Some 2, length_q = 3, dequeueWorkerCallback = CbFunction,
      dequeueBatchSize = 2, dequeueDelay = 10, manualStop = False, calls = [], timers = []\<rparr> \<and>
   (\<exists>q1. dequeue (Some 1)
        \<lparr>heap = [\<lparr>node_value = 7::nat, node_next = Some 1\<rparr>, \<lparr>node_value = 9, node_next = Some 2\<rparr>,
                 \<lparr>node_value = 4, node_next = None\<rparr>],
         head = Some 0, tail = Some 2, length_q = 3, dequeueWorkerCallback = CbFunction,
         dequeueBatchSize = 2, dequeueDelay = 10, manualStop = False, calls = [], timers = []\<rparr>
        = Inr (JUndefined, q1\<lparr>calls := [([JElem 7, JElem 9], False)]\<rparr>) \<and>
      contents q1 = [4] \<and> length_q q1 = 1) \<and>
   queue_inv
     \<lparr>heap = [\<lparr>node_value = 7::nat, node_next = Some 1\<rparr>, \<lparr>node_value = 9, node_next = Some 2\<rparr>,
              \<lparr>node_value = 4, node_next = None\<rparr>],
      head = Some 0, tail = Some 2, length_q = 3, dequeueWorkerCallback = CbNull,
      dequeueBatchSize = 2, dequeueDelay = 10, manualStop = False, calls = [], timers = []\<rparr> \<and>
   (\<exists>q1. dequeue (Some 1)
        \<lparr>heap = [\<lparr>node_value = 7::nat, node_next = Some 1\<rparr>, \<lparr>node_value = 9, node_next = Some 2\<rparr>,
                 \<lparr>node_value = 4, node_next = None\<rparr>],
         head = Some 0, tail = Some 2, length_q = 3, dequeueWorkerCallback = CbNull,
         dequeueBatchSize = 2, dequeueDelay = 10, manualStop = False, calls = [], timers = []\<rparr>
        = Inr (JArray [JElem 7], q1) \<and>
      contents q1 = [9, 4] \<and> length_q q1 = 2 \<and> calls q1 = [])"
proof -
  let ?f = "\<lparr>heap = [\<lparr>node_value = 7::nat, node_next = Some 1\<rparr>, \<lparr>node_value = 9, node_next = Some 2\<rparr>,
              \<lparr>node_value = 4, node_next = None\<rparr>],
      head = Some 0, tail = Some 2, length_q = 3, dequeueWorkerCallback = CbFunction,
      dequeueBatchSize = 2, dequeueDelay = 10, manualStop = False, calls = [], timers = []\<rparr>"
  let ?n = "\<lparr>heap = [\<lparr>node_value = 7::nat, node_next = Some 1\<rparr>, \<lparr>node_value = 9, node_next = Some 2\<rparr>,
              \<lparr>node_value = 4, node_next = None\<rparr>],
      head = Some 0, tail = Some 2, length_q = 3, dequeueWorkerCallback = CbNull,
      dequeueBatchSize = 2, dequeueDelay = 10, manualStop = False, calls = [], timers = []\<rparr>"
  have f: "queue_inv ?f" by (simp add: queue_inv_def eval_nat_numeral)
  have n: "queue_inv ?n" by (simp add: queue_inv_def eval_nat_numeral)
  have cf: "contents ?f = [7, 9, 4]" by (simp add: contents_def eval_nat_numeral)
  have cn: "contents ?n = [7, 9, 4]" by (simp add: contents_def eval_nat_numeral)
  from dequeue_worker_coupling[OF f, of "Some 1"] obtain es q1 where
    "es = map JElem (take (nat (min (dequeueBatchSize ?f) (length_q ?f))) (contents ?f))"
    "contents q1 = drop (nat (min (dequeueBatchSize ?f) (length_q ?f))) (contents ?f)"
    "length_q q1 = length_q ?f - max 0 (min (dequeueBatchSize ?f) (length_q ?f))"
    "dequeue (Some 1) ?f = Inr (JUndefined, q1\<lparr>calls := calls ?f @ [(es, length_q q1 = 0)]\<rparr>)"
    by auto
  then have 1: "\<exists>q1. dequeue (Some 1) ?f = Inr (JUndefined, q1\<lparr>calls := [([JElem 7, JElem 9], False)]\<rparr>) \<and>
      contents q1 = [4] \<and> length_q q1 = 1"
    unfolding cf by (auto simp: numeral_2_eq_2)
  from dequeue_worker_coupling[OF n, of "Some 1"] obtain es q1 where
    "es = map JElem (take (nat (min (requested (Some 1) ?n) (length_q ?n))) (contents ?n))"
    "contents q1 = drop (nat (min (requested (Some 1) ?n) (length_q ?n))) (contents ?n)"
    "length_q q1 = length_q ?n - max 0 (min (requested (Some 1) ?n) (length_q ?n))"
    "calls q1 = calls ?n"
    "dequeue (Some 1) ?n = Inr (JArray es, q1)"
    by auto
  then have 2: "\<exists>q1. dequeue (Some 1) ?n = Inr (JArray [JElem 7], q1) \<and>
      contents q1 = [9, 4] \<and> length_q q1 = 2 \<and> calls q1 = []"
    unfolding cn by (auto simp: requested_def)
  from f n 1 2 show ?thesis by blast
qed

text \<open>
  Claim C6. With no worker configured (the callback is \<open>null\<close> or not a function),
  \<open>startAutoDequeue()\<close> returns \<open>false\<close> without raising, and leaves the whole state
  as it was: the contents and length of the queue, and no round is scheduled.
\<close>

theorem startAutoDequeue_not_configured:
  "dequeueWorkerCallback q \<noteq> CbFunction \<Longrightarrow> startAutoDequeue q = Inr (JBool False, q)"
  by (cases "dequeueWorkerCallback q") (simp_all add: startAutoDequeue_def typeof_function_def)

theorem startAutoDequeue_not_configured_witness:
  "dequeueWorkerCallback (new_FifoQueueAsync CbOther 1 10 False :: nat FifoQueueAsync) \<noteq> CbFunction \<and>
   startAutoDequeue (new_FifoQueueAsync CbOther 1 10 False :: nat FifoQueueAsync) =
     Inr (JBool False, new_FifoQueueAsync CbOther 1 10 False)"
proof -
  have h: "dequeueWorkerCallback (new_FifoQueueAsync CbOther 1 10 False :: nat FifoQueueAsync) \<noteq> CbFunction"
    by (simp add: new_FifoQueueAsync_def)
  show ?thesis by (rule conjI[OF h startAutoDequeue_not_configured[OF h]])
qed

text \<open>
  Claim C8. \<open>clear()\<close> sets \<open>head\<close> and \<open>tail\<close> to \<open>null\<close> and \<open>length\<close> to 0 and leaves
  the drain policy (worker callback, batch size, delay, manual-stop flag), the worker's log
  and the pending timers unchanged; on a well-formed queue that is already empty it
  changes nothing at all.
\<close>

theorem clear_resets_chain_only:
  "head (clear q) = None \<and> tail (clear q) = None \<and> length_q (clear q) = 0 \<and>
   policy (clear q) = policy q \<and> frame (clear q) = frame q \<and>
   (queue_inv q \<longrightarrow> isEmpty q \<longrightarrow> clear q = q)"
  using clear_empty[of q] by (simp add: clear_def policy_def frame_def isEmpty_def)

theorem clear_resets_chain_only_witness:
  "queue_inv (new_FifoQueueAsync CbNull 1 10 False :: nat FifoQueueAsync) \<and>
   isEmpty (new_FifoQueueAsync CbNull 1 10 False :: nat FifoQueueAsync) \<and>
   clear (new_FifoQueueAsync CbNull 1 10 False :: nat FifoQueueAsync) = new_FifoQueueAsync CbNull 1 10 False"
proof -
  have i: "queue_inv (new_FifoQueueAsync CbNull 1 10 False :: nat FifoQueueAsync)"
    by (simp add: queue_inv_def new_FifoQueueAsync_def)
  have e: "isEmpty (new_FifoQueueAsync CbNull 1 10 False :: nat FifoQueueAsync)"
    by (simp add: isEmpty_def new_FifoQueueAsync_def)
  from clear_resets_chain_only[of "new_FifoQueueAsync CbNull 1 10 False :: nat FifoQueueAsync"] i e
  show ?thesis by blast
qed

text \<open>
  Claim C9. On a well-formed queue with no worker configured, \<open>dequeue(k)\<close> with a negative
  \<open>k\<close> returns an empty array and leaves the state, so \<open>head\<close>, \<open>tail\<close> and \<open>length\<close>,
  unchanged.
\<close>

theorem dequeue_negative:
  assumes "queue_inv q" and "dequeueWorkerCallback q \<noteq> CbFunction" and "k < 0"
  shows "dequeue (Some k) q = Inr (JArray [], q)"
proof -
  have "min k (length_q q) \<le> 0" using assms(3) by simp
  then have l: "dequeueLoop (min k (length_q q)) [] q = Inr ([], q)" by (rule dequeueLoop_done)
  have c: "(if length_q q = 0 then clear q else q) = q" using clear_empty[OF assms(1)] by simp
  have "getDequeueElements (Some k) q = Inr ([], q)"
    unfolding getDequeueElements_def Let_def using l c by simp
  with assms(2) show ?thesis by (simp add: dequeue_def typeof_function_def)
qed

theorem dequeue_negative_witness:
  "queue_inv \<lparr>heap = [\<lparr>node_value = 7::nat, node_next = Some 1\<rparr>, \<lparr>node_value = 9, node_next = None\<rparr>],
      head = Some 0, tail = Some 1, length_q = 2, dequeueWorkerCallback = CbNull,
      dequeueBatchSize = 1, dequeueDelay = 10, manualStop = False, calls = [], timers = []\<rparr> \<and>
   CbNull \<noteq> CbFunction \<and> (- 3 :: int) < 0 \<and>
   dequeue (Some (- 3))
     \<lparr>heap = [\<lparr>node_value = 7::nat, node_next = Some 1\<rparr>, \<lparr>node_value = 9, node_next = None\<rparr>],
      head = Some 0, tail = Some 1, length_q = 2, dequeueWorkerCallback = CbNull,
      dequeueBatchSize = 1, dequeueDelay = 10, manualStop = False, calls = [], timers = []\<rparr> =
   Inr (JArray [],
     \<lparr>heap = [\<lparr>node_value = 7::nat, node_next = Some 1\<rparr>, \<lparr>node_value = 9, node_next = None\<rparr>],
      head = Some 0, tail = Some 1, length_q = 2, dequeueWorkerCallback = CbNull,
      dequeueBatchSize = 1, dequeueDelay = 10, manualStop = False, calls = [], timers = []\<rparr>)"
proof -
  let ?q = "\<lparr>heap = [\<lparr>node_value = 7::nat, node_next = Some 1\<rparr>, \<lparr>node_value = 9, node_next = None\<rparr>],
      head = Some 0, tail = Some 1, length_q = 2, dequeueWorkerCallback = CbNull,
      dequeueBatchSize = 1, dequeueDelay = 10, manualStop = False, calls = [], timers = []\<rparr>"
  have h: "queue_inv ?q" by (simp add: queue_inv_def numeral_2_eq_2)
  have w: "dequeueWorkerCallback ?q \<noteq> CbFunction" by simp
  have k: "(- 3 :: int) < 0" by simp
  from dequeue_negative[OF h w k] h k show ?thesis by simp
qed

lemma fireTimer_round:
  assumes "queue_inv q" and "dequeueWorkerCallback q = CbFunction"
    and "manualStop q \<or> length_q q \<noteq> 0" and "timers q = d # ds"
  shows "\<exists>q'. fireTimer q = Inr q' \<and> queue_inv q' \<and>
           contents q' = drop (nat (min (dequeueBatchSize q) (length_q q))) (contents q) \<and>
           calls q' = calls q @
             [(map JElem (take (nat (min (dequeueBatchSize q) (length_q q))) (contents q)),
               length_q q' = 0)] \<and>
           timers q' = ds @ [dequeueDelay q] \<and> policy q' = policy q"
proof -
  let ?s = "q\<lparr>timers := ds\<rparr>"
  have 1: "queue_inv ?s" using assms(1) by simp
  have 2: "dequeueWorkerCallback ?s = CbFunction" using assms(2) by simp
  have 3: "manualStop ?s \<or> length_q ?s \<noteq> 0" using assms(3) by simp
  from startAutoDequeue_round[OF 1 2 3] obtain q' where
    s: "startAutoDequeue ?s = Inr (JUndefined, q')" and "queue_inv q'"
    and "contents q' = drop (nat (min (dequeueBatchSize q) (length_q q))) (contents q)"
    and "calls q' = calls q @
             [(map JElem (take (nat (min (dequeueBatchSize q) (length_q q))) (contents q)),
               length_q q' = 0)]"
    and "timers q' = ds @ [dequeueDelay q]" and "policy q' = policy q"
    by (auto simp: policy_def)
  moreover have "fireTimer q = Inr q'" using assms(4) s by (simp add: fireTimer_def)
  ultimately show ?thesis by blast
qed

lemma fireTimer_idle:
  "dequeueWorkerCallback q = CbFunction \<Longrightarrow> \<not> manualStop q \<Longrightarrow> length_q q = 0 \<Longrightarrow>
   timers q = d # ds \<Longrightarrow> fireTimer q = Inr (q\<lparr>timers := ds\<rparr>)"
  by (simp add: fireTimer_def startAutoDequeue_idle)

lemma timer_rounds_inv:
  "queue_inv q \<Longrightarrow> dequeueWorkerCallback q = CbFunction \<Longrightarrow> \<not> manualStop q \<Longrightarrow>
   length_q q \<noteq> 0 \<longrightarrow> timers q \<noteq> [] \<Longrightarrow>
   \<exists>rs s. run (replicate n FireTimer) q = Inr (rs, s) \<and> queue_inv s \<and>
     dequeueWorkerCallback s = CbFunction \<and> \<not> manualStop s \<and>
     (length_q s \<noteq> 0 \<longrightarrow> timers s \<noteq> []) \<and>
     dequeueBatchSize s = dequeueBatchSize q \<and> dequeueDelay s = dequeueDelay q"
proof (induction n arbitrary: q)
  case 0
  then show ?case by simp
next
  case (Suc n)
  have "\<exists>q1. fireTimer q = Inr q1 \<and> queue_inv q1 \<and> dequeueWorkerCallback q1 = CbFunction \<and>
          \<not> manualStop q1 \<and> (length_q q1 \<noteq> 0 \<longrightarrow> timers q1 \<noteq> []) \<and>
          dequeueBatchSize q1 = dequeueBatchSize q \<and> dequeueDelay q1 = dequeueDelay q"
  proof (cases "timers q")
    case Nil
    then have "fireTimer q = Inr q" by (simp add: fireTimer_def)
    with Suc.prems show ?thesis by simp
  next
    case (Cons d ds)
    show ?thesis
    proof (cases "length_q q = 0")
      case True
      have "fireTimer q = Inr (q\<lparr>timers := ds\<rparr>)"
        by (rule fireTimer_idle[OF Suc.prems(2,3) True Cons])
      with Suc.prems True show ?thesis by simp
    next
      case False
      then have r: "manualStop q \<or> length_q q \<noteq> 0" by simp
      from fireTimer_round[OF Suc.prems(1,2) r Cons] obtain q1 where
        "fireTimer q = Inr q1" "queue_inv q1" "timers q1 = ds @ [dequeueDelay q]"
        "policy q1 = policy q" by blast
      with Suc.prems(2,3) show ?thesis by (auto simp: policy_def)
    qed
  qed
  then obtain q1 where f: "fireTimer q = Inr q1" and i: "queue_inv q1"
    and w: "dequeueWorkerCallback q1 = CbFunction" and m: "\<not> manualStop q1"
    and t: "length_q q1 \<noteq> 0 \<longrightarrow> timers q1 \<noteq> []"
    and b: "dequeueBatchSize q1 = dequeueBatchSize q" and dl: "dequeueDelay q1 = dequeueDelay q"
    by blast
  from Suc.IH[OF i w m t] obtain rs s where
    "run (replicate n FireTimer) q1 = Inr (rs, s)" "queue_inv s"
    "dequeueWorkerCallback s = CbFunction" "\<not> manualStop s"
    "length_q s \<noteq> 0 \<longrightarrow> timers s \<noteq> []"
    "dequeueBatchSize s = dequeueBatchSize q1" "dequeueDelay s = dequeueDelay q1" by blast
  with f b dl show ?case by simp
qed

lemma timer_round_cases:
  assumes "queue_inv s" and "dequeueWorkerCallback s = CbFunction" and "\<not> manualStop s"
    and "length_q s \<noteq> 0 \<longrightarrow> timers s \<noteq> []"
  shows "(length_q s = 0 \<longrightarrow> fireTimer s = Inr (s\<lparr>timers := tl (timers s)\<rparr>)) \<and>
         (length_q s \<noteq> 0 \<longrightarrow> timers s \<noteq> [] \<and>
            (\<exists>s'. fireTimer s = Inr s' \<and>
               calls s' = calls s @
                 [(map JElem (take (nat (min (dequeueBatchSize s) (length_q s))) (contents s)),
                   length_q s' = 0)] \<and>
               contents s' = drop (nat (min (dequeueBatchSize s) (length_q s))) (contents s) \<and>
               timers s' = tl (timers s) @ [dequeueDelay s]))"
proof (intro conjI impI)
  assume z: "length_q s = 0"
  show "fireTimer s = Inr (s\<lparr>timers := tl (timers s)\<rparr>)"
  proof (cases "timers s")
    case Nil
    then have "s\<lparr>timers := tl (timers s)\<rparr> = s" by (cases s) simp
    with Nil show ?thesis by (simp add: fireTimer_def)
  next
    case (Cons d ds)
    with fireTimer_idle[OF assms(2,3) z Cons] show ?thesis by simp
  qed
next
  assume nz: "length_q s \<noteq> 0"
  with assms(4) show "timers s \<noteq> []" by simp
next
  assume nz: "length_q s \<noteq> 0"
  with assms(4) obtain d ds where t: "timers s = d # ds" by (cases "timers s") auto
  from nz have r: "manualStop s \<or> length_q s \<noteq> 0" by simp
  from fireTimer_round[OF assms(1,2) r t] t
  show "\<exists>s'. fireTimer s = Inr s' \<and>
               calls s' = calls s @
                 [(map JElem (take (nat (min (dequeueBatchSize s) (length_q s))) (contents s)),
                   length_q s' = 0)] \<and>
               contents s' = drop (nat (min (dequeueBatchSize s) (length_q s))) (contents s) \<and>
               timers s' = tl (timers s) @ [dequeueDelay s]"
    by auto
qed

text \<open>
  Claim C4, amended. In a state of the auto-dequeue loop (a worker is configured and a round
  is pending), \<open>stopAutoDequeue()\<close> sets \<open>manualStop\<close> to \<open>false\<close> and nothing else; the
  pending round is not cancelled. When that round fires it looks at the queue before
  extracting: on an empty queue it makes no worker call and schedules nothing; on a
  non-empty queue it makes exactly one worker call, with the next batch and the emptiness
  after the extraction, and schedules exactly one further round, which finds the loop as it
  was: the queue well formed, the worker configured and \<open>manualStop\<close> still \<open>false\<close>. The
  same holds of every later round, however many have fired (no other call intervening): a
  round fired on a non-empty queue makes one worker call and schedules one further round, a
  round fired on an empty queue makes no worker call and schedules nothing. So rounds go on
  until one fires on an empty queue.
\<close>

theorem stopAutoDequeue_pending_round:
  assumes "queue_inv q" and "dequeueWorkerCallback q = CbFunction" and "timers q = d # ds"
  shows "stopAutoDequeue q = q\<lparr>manualStop := False\<rparr> \<and>
         (length_q q = 0 \<longrightarrow>
            fireTimer (stopAutoDequeue q) = Inr (q\<lparr>manualStop := False, timers := ds\<rparr>)) \<and>
         (length_q q \<noteq> 0 \<longrightarrow>
            (\<exists>q'. fireTimer (stopAutoDequeue q) = Inr q' \<and>
                calls q' = calls q @
                  [(map JElem (take (nat (min (dequeueBatchSize q) (length_q q))) (contents q)),
                    length_q q' = 0)] \<and>
                contents q' = drop (nat (min (dequeueBatchSize q) (length_q q))) (contents q) \<and>
                timers q' = ds @ [dequeueDelay q] \<and>
                queue_inv q' \<and> dequeueWorkerCallback q' = CbFunction \<and> \<not> manualStop q' \<and>
                dequeueBatchSize q' = dequeueBatchSize q \<and> dequeueDelay q' = dequeueDelay q)) \<and>
         (\<forall>n. \<exists>rs s. run (replicate n FireTimer) (stopAutoDequeue q) = Inr (rs, s) \<and>
            queue_inv s \<and> dequeueWorkerCallback s = CbFunction \<and> \<not> manualStop s \<and>
            dequeueBatchSize s = dequeueBatchSize q \<and> dequeueDelay s = dequeueDelay q \<and>
            (length_q s = 0 \<longrightarrow> fireTimer s = Inr (s\<lparr>timers := tl (timers s)\<rparr>)) \<and>
            (length_q s \<noteq> 0 \<longrightarrow> timers s \<noteq> [] \<and>
               (\<exists>s'. fireTimer s = Inr s' \<and>
                  calls s' = calls s @
                    [(map JElem (take (nat (min (dequeueBatchSize s) (length_q s))) (contents s)),
                      length_q s' = 0)] \<and>
                  contents s' = drop (nat (min (dequeueBatchSize s) (length_q s))) (contents s) \<and>
                  timers s' = tl (timers s) @ [dequeueDelay s])))"
proof -
  let ?s = "stopAutoDequeue q"
  have 1: "queue_inv ?s" using assms(1) by (simp add: stopAutoDequeue_def)
  have 2: "dequeueWorkerCallback ?s = CbFunction" using assms(2) by (simp add: stopAutoDequeue_def)
  have 3: "\<not> manualStop ?s" by (simp add: stopAutoDequeue_def)
  have 4: "timers ?s = d # ds" using assms(3) by (simp add: stopAutoDequeue_def)
  have 5: "length_q ?s \<noteq> 0 \<longrightarrow> timers ?s \<noteq> []" using 4 by simp
  have a: "stopAutoDequeue q = q\<lparr>manualStop := False\<rparr>" by (simp add: stopAutoDequeue_def)
  have b: "length_q q = 0 \<longrightarrow>
            fireTimer (stopAutoDequeue q) = Inr (q\<lparr>manualStop := False, timers := ds\<rparr>)"
    using fireTimer_idle[OF 2 3 _ 4] by (simp add: stopAutoDequeue_def)
  have c: "length_q q \<noteq> 0 \<longrightarrow>
            (\<exists>q'. fireTimer (stopAutoDequeue q) = Inr q' \<and>
                calls q' = calls q @
                  [(map JElem (take (nat (min (dequeueBatchSize q) (length_q q))) (contents q)),
                    length_q q' = 0)] \<and>
                contents q' = drop (nat (min (dequeueBatchSize q) (length_q q))) (contents q) \<and>
                timers q' = ds @ [dequeueDelay q] \<and>
                queue_inv q' \<and> dequeueWorkerCallback q' = CbFunction \<and> \<not> manualStop q' \<and>
                dequeueBatchSize q' = dequeueBatchSize q \<and> dequeueDelay q' = dequeueDelay q)"
  proof
    assume "length_q q \<noteq> 0"
    then have r: "manualStop ?s \<or> length_q ?s \<noteq> 0" by (simp add: stopAutoDequeue_def)
    from fireTimer_round[OF 1 2 r 4] obtain q' where
      "fireTimer ?s = Inr q'" "queue_inv q'"
      "contents q' = drop (nat (min (dequeueBatchSize ?s) (length_q ?s))) (contents ?s)"
      "calls q' = calls ?s @
             [(map JElem (take (nat (min (dequeueBatchSize ?s) (length_q ?s))) (contents ?s)),
               length_q q' = 0)]"
      "timers q' = ds @ [dequeueDelay ?s]" "policy q' = policy ?s" by blast
    then show "\<exists>q'. fireTimer (stopAutoDequeue q) = Inr q' \<and>
                calls q' = calls q @
                  [(map JElem (take (nat (min (dequeueBatchSize q) (length_q q))) (contents q)),
                    length_q q' = 0)] \<and>
                contents q' = drop (nat (min (dequeueBatchSize q) (length_q q))) (contents q) \<and>
                timers q' = ds @ [dequeueDelay q] \<and>
                queue_inv q' \<and> dequeueWorkerCallback q' = CbFunction \<and> \<not> manualStop q' \<and>
                dequeueBatchSize q' = dequeueBatchSize q \<and> dequeueDelay q' = dequeueDelay q"
      using assms(2) by (auto simp: stopAutoDequeue_def policy_def)
  qed
  have e: "\<forall>n. \<exists>rs s. run (replicate n FireTimer) (stopAutoDequeue q) = Inr (rs, s) \<and>
            queue_inv s \<and> dequeueWorkerCallback s = CbFunction \<and> \<not> manualStop s \<and>
            dequeueBatchSize s = dequeueBatchSize q \<and> dequeueDelay s = dequeueDelay q \<and>
            (length_q s = 0 \<longrightarrow> fireTimer s = Inr (s\<lparr>timers := tl (timers s)\<rparr>)) \<and>
            (length_q s \<noteq> 0 \<longrightarrow> timers s \<noteq> [] \<and>
               (\<exists>s'. fireTimer s = Inr s' \<and>
                  calls s' = calls s @
                    [(map JElem (take (nat (min (dequeueBatchSize s) (length_q s))) (contents s)),
                      length_q s' = 0)] \<and>
                  contents s' = drop (nat (min (dequeueBatchSize s) (length_q s))) (contents s) \<and>
                  timers s' = tl (timers s) @ [dequeueDelay s]))"
  proof
    fix n
    from timer_rounds_inv[OF 1 2 3 5, of n] obtain rs s where
      r: "run (replicate n FireTimer) ?s = Inr (rs, s)" and i: "queue_inv s"
      and w: "dequeueWorkerCallback s = CbFunction" and m: "\<not> manualStop s"
      and t: "length_q s \<noteq> 0 \<longrightarrow> timers s \<noteq> []"
      and bs: "dequeueBatchSize s = dequeueBatchSize ?s" and dl: "dequeueDelay s = dequeueDelay ?s"
      by blast
    have bs': "dequeueBatchSize s = dequeueBatchSize q" and dl': "dequeueDelay s = dequeueDelay q"
      using bs dl by (simp_all add: stopAutoDequeue_def)
    from timer_round_cases[OF i w m t] r i w m bs' dl'
    show "\<exists>rs s. run (replicate n FireTimer) (stopAutoDequeue q) = Inr (rs, s) \<and>
            queue_inv s \<and> dequeueWorkerCallback s = CbFunction \<and> \<not> manualStop s \<and>
            dequeueBatchSize s = dequeueBatchSize q \<and> dequeueDelay s = dequeueDelay q \<and>
            (length_q s = 0 \<longrightarrow> fireTimer s = Inr (s\<lparr>timers := tl (timers s)\<rparr>)) \<and>
            (length_q s \<noteq> 0 \<longrightarrow> timers s \<noteq> [] \<and>
               (\<exists>s'. fireTimer s = Inr s' \<and>
                  calls s' = calls s @
                    [(map JElem (take (nat (min (dequeueBatchSize s) (length_q s))) (contents s)),
                      length_q s' = 0)] \<and>
                  contents s' = drop (nat (min (dequeueBatchSize s) (length_q s))) (contents s) \<and>
                  timers s' = tl (timers s) @ [dequeueDelay s]))"
      by blast
  qed
  from a b c e show ?thesis by blast
qed

theorem stopAutoDequeue_pending_round_witness:
  "queue_inv \<lparr>heap = [\<lparr>node_value = 1::nat, node_next = Some 1\<rparr>, \<lparr>node_value = 2, node_next = Some 2\<rparr>,
                      \<lparr>node_value = 3, node_next = None\<rparr>],
      head = Some 1, tail = Some 2, length_q = 2, dequeueWorkerCallback = CbFunction,
      dequeueBatchSize = 1, dequeueDelay = 10, manualStop = True,
      calls = [([JElem 1], False)], timers = [10]\<rparr> \<and>
   (\<exists>q'. fireTimer (stopAutoDequeue
        \<lparr>heap = [\<lparr>node_value = 1::nat, node_next = Some 1\<rparr>, \<lparr>node_value = 2, node_next = Some 2\<rparr>,
                      \<lparr>node_value = 3, node_next = None\<rparr>],
         head = Some 1, tail = Some 2, length_q = 2, dequeueWorkerCallback = CbFunction,
         dequeueBatchSize = 1, dequeueDelay = 10, manualStop = True,
         calls = [([JElem 1], False)], timers = [10]\<rparr>) = Inr q' \<and>
      calls q' = [([JElem 1], False), ([JElem 2], False)] \<and> timers q' = [10] \<and>
      contents q' = [3] \<and> \<not> manualStop q' \<and> dequeueWorkerCallback q' = CbFunction) \<and>
   (\<exists>rs s. run (replicate 1 FireTimer) (stopAutoDequeue
        \<lparr>heap = [\<lparr>node_value = 1::nat, node_next = Some 1\<rparr>, \<lparr>node_value = 2, node_next = Some 2\<rparr>,
                      \<lparr>node_value = 3, node_next = None\<rparr>],
         head = Some 1, tail = Some 2, length_q = 2, dequeueWorkerCallback = CbFunction,
         dequeueBatchSize = 1, dequeueDelay = 10, manualStop = True,
         calls = [([JElem 1], False)], timers = [10]\<rparr>) = Inr (rs, s) \<and>
      length_q s \<noteq> 0 \<and>
      (\<exists>s'. fireTimer s = Inr s' \<and>
         calls s' = [([JElem 1], False), ([JElem 2], False), ([JElem 3], length_q s' = 0)] \<and>
         contents s' = [] \<and> timers s' = [10])) \<and>
   queue_inv \<lparr>heap = [], head = None, tail = None, length_q = 0, dequeueWorkerCallback = CbFunction,
      dequeueBatchSize = 1, dequeueDelay = 10, manualStop = True,
      calls = [([] :: nat jsval list, True)], timers = [10]\<rparr> \<and>
   fireTimer (stopAutoDequeue
      \<lparr>heap = [], head = None, tail = None, length_q = 0, dequeueWorkerCallback = CbFunction,
       dequeueBatchSize = 1, dequeueDelay = 10, manualStop = True,
       calls = [([] :: nat jsval list, True)], timers = [10]\<rparr>) =
     Inr \<lparr>heap = [], head = None, tail = None, length_q = 0, dequeueWorkerCallback = CbFunction,
       dequeueBatchSize = 1, dequeueDelay = 10, manualStop = False,
       calls = [([] :: nat jsval list, True)], timers = []\<rparr>"
proof -
  let ?q = "\<lparr>heap = [\<lparr>node_value = 1::nat, node_next = Some 1\<rparr>, \<lparr>node_value = 2, node_next = Some 2\<rparr>,
                      \<lparr>node_value = 3, node_next = None\<rparr>],
      head = Some 1, tail = Some 2, length_q = 2, dequeueWorkerCallback = CbFunction,
      dequeueBatchSize = 1, dequeueDelay = 10, manualStop = True,
      calls = [([JElem 1], False)], timers = [10]\<rparr>"
  let ?s1 = "\<lparr>heap = [\<lparr>node_value = 1::nat, node_next = Some 1\<rparr>, \<lparr>node_value = 2, node_next = Some 2\<rparr>,
                      \<lparr>node_value = 3, node_next = None\<rparr>],
      head = Some 2, tail = Some 2, length_q = 1, dequeueWorkerCallback = CbFunction,
      dequeueBatchSize = 1, dequeueDelay = 10, manualStop = False,
      calls = [([JElem 1], False), ([JElem 2], False)], timers = [10]\<rparr>"
  let ?e = "\<lparr>heap = [], head = None, tail = None, length_q = 0, dequeueWorkerCallback = CbFunction,
      dequeueBatchSize = 1, dequeueDelay = 10, manualStop = True,
      calls = [([] :: nat jsval list, True)], timers = [10]\<rparr>"
  have iq: "queue_inv ?q" by (simp add: queue_inv_def numeral_2_eq_2)
  have cq: "contents ?q = [2, 3]" by (simp add: contents_def numeral_2_eq_2)
  have ie: "queue_inv ?e" by (simp add: queue_inv_def)
  have wq: "dequeueWorkerCallback ?q = CbFunction" by simp
  have we: "dequeueWorkerCallback ?e = CbFunction" by simp
  have tq: "timers ?q = 10 # []" by simp
  have te: "timers ?e = 10 # []" by simp
  note T = stopAutoDequeue_pending_round[OF iq wq tq]
  from T have "length_q ?q \<noteq> 0 \<longrightarrow>
     (\<exists>q'. fireTimer (stopAutoDequeue ?q) = Inr q' \<and>
        calls q' = calls ?q @
          [(map JElem (take (nat (min (dequeueBatchSize ?q) (length_q ?q))) (contents ?q)),
            length_q q' = 0)] \<and>
        contents q' = drop (nat (min (dequeueBatchSize ?q) (length_q ?q))) (contents ?q) \<and>
        timers q' = [] @ [dequeueDelay ?q] \<and>
        queue_inv q' \<and> dequeueWorkerCallback q' = CbFunction \<and> \<not> manualStop q' \<and>
        dequeueBatchSize q' = dequeueBatchSize ?q \<and> dequeueDelay q' = dequeueDelay ?q)"
    by blast
  then obtain q' where f: "fireTimer (stopAutoDequeue ?q) = Inr q'"
    and k: "calls q' = [([JElem 1], False), ([JElem 2], length_q q' = 0)]"
    and c: "contents q' = [3]" and t: "timers q' = [10]" and i: "queue_inv q'"
    and w: "dequeueWorkerCallback q' = CbFunction" and m: "\<not> manualStop q'"
    unfolding cq by auto
  have "length_q q' = 1" using length_contents[OF i] c by simp
  with f k c t w m
  have 1: "\<exists>q'. fireTimer (stopAutoDequeue ?q) = Inr q' \<and>
      calls q' = [([JElem 1], False), ([JElem 2], False)] \<and> timers q' = [10] \<and>
      contents q' = [3] \<and> \<not> manualStop q' \<and> dequeueWorkerCallback q' = CbFunction"
    by auto
  have ev: "run (replicate 1 FireTimer) (stopAutoDequeue ?q) = Inr ([JUndefined], ?s1)"
    by code_simp
  have c1: "contents ?s1 = [3]" by (simp add: contents_def)
  from T have "\<exists>rs s. run (replicate 1 FireTimer) (stopAutoDequeue ?q) = Inr (rs, s) \<and>
      (length_q s \<noteq> 0 \<longrightarrow> timers s \<noteq> [] \<and>
         (\<exists>s'. fireTimer s = Inr s' \<and>
            calls s' = calls s @
              [(map JElem (take (nat (min (dequeueBatchSize s) (length_q s))) (contents s)),
                length_q s' = 0)] \<and>
            contents s' = drop (nat (min (dequeueBatchSize s) (length_q s))) (contents s) \<and>
            timers s' = tl (timers s) @ [dequeueDelay s]))"
    by blast
  then have "length_q ?s1 \<noteq> 0 \<longrightarrow> timers ?s1 \<noteq> [] \<and>
         (\<exists>s'. fireTimer ?s1 = Inr s' \<and>
            calls s' = calls ?s1 @
              [(map JElem (take (nat (min (dequeueBatchSize ?s1) (length_q ?s1))) (contents ?s1)),
                length_q s' = 0)] \<and>
            contents s' = drop (nat (min (dequeueBatchSize ?s1) (length_q ?s1))) (contents ?s1) \<and>
            timers s' = tl (timers ?s1) @ [dequeueDelay ?s1])"
    unfolding ev by blast
  then have "\<exists>s'. fireTimer ?s1 = Inr s' \<and>
         calls s' = [([JElem 1], False), ([JElem 2], False), ([JElem 3], length_q s' = 0)] \<and>
         contents s' = [] \<and> timers s' = [10]"
    unfolding c1 by simp
  with ev have 2: "\<exists>rs s. run (replicate 1 FireTimer) (stopAutoDequeue ?q) = Inr (rs, s) \<and>
      length_q s \<noteq> 0 \<and>
      (\<exists>s'. fireTimer s = Inr s' \<and>
         calls s' = [([JElem 1], False), ([JElem 2], False), ([JElem 3], length_q s' = 0)] \<and>
         contents s' = [] \<and> timers s' = [10])"
    by simp
  from stopAutoDequeue_pending_round[OF ie we te]
  have "length_q ?e = 0 \<longrightarrow>
          fireTimer (stopAutoDequeue ?e) = Inr (?e\<lparr>manualStop := False, timers := []\<rparr>)"
    by blast
  then have 3: "fireTimer (stopAutoDequeue ?e) = Inr (?e\<lparr>manualStop := False, timers := []\<rparr>)"
    by simp
  from iq ie 1 2 3 show ?thesis by simp
qed

text \<open>
  Claim C4 as stated fails. With \<open>manualStop = true\<close>, batch size 1 and three elements,
  after \<open>startAutoDequeue()\<close> and \<open>stopAutoDequeue()\<close> the pending round makes its worker
  call and schedules a further round, and that round runs and calls the worker again. With
  an empty queue, the pending round makes no worker call: the log still holds only the call
  made by \<open>startAutoDequeue()\<close> itself.
\<close>

theorem stopAutoDequeue_pending_round_counterexample:
  "map_option timers (final (run
      [Enqueue (1::nat), Enqueue 2, Enqueue 3, StartAutoDequeue, StopAutoDequeue, FireTimer]
      (new_FifoQueueAsync CbFunction 1 10 True))) = Some [10] \<and>
   map_option calls (final (run
      [Enqueue (1::nat), Enqueue 2, Enqueue 3, StartAutoDequeue, StopAutoDequeue, FireTimer, FireTimer]
      (new_FifoQueueAsync CbFunction 1 10 True))) =
     Some [([JElem 1], False), ([JElem 2], False), ([JElem 3], True)] \<and>
   map_option calls (final (run [StartAutoDequeue, StopAutoDequeue, FireTimer]
      (new_FifoQueueAsync CbFunction 1 10 True :: nat FifoQueueAsync))) = Some [([], True)]"
  by code_simp

text \<open>
  Claim C5, amended. With a worker configured, \<open>manualStop = false\<close>, batch size 2, no round
  pending and a well-formed queue holding five elements, \<open>startAutoDequeue()\<close> and the two
  rounds that follow invoke the worker exactly three times, with batches of sizes 2, 2, 1
  in FIFO order, the last with \<open>isEmpty = true\<close>. The round whose extraction empties the
  queue still schedules one more round; that round finds the queue empty, makes no worker
  call and schedules nothing, and with it the rounds have settled: no timer is pending.
\<close>

theorem auto_dequeue_five_by_two:
  assumes "queue_inv q" and "contents q = [x1, x2, x3, x4, x5]"
    and "dequeueWorkerCallback q = CbFunction" and "dequeueBatchSize q = 2"
    and "\<not> manualStop q" and "timers q = []"
  shows "\<exists>q1 q3. startAutoDequeue q = Inr (JUndefined, q1) \<and>
           run [FireTimer, FireTimer] q1 = Inr ([JUndefined, JUndefined], q3) \<and>
           calls q3 = calls q @ [([JElem x1, JElem x2], False), ([JElem x3, JElem x4], False),
                                 ([JElem x5], True)] \<and>
           length_q q3 = 0 \<and> timers q3 = [dequeueDelay q] \<and>
           fireTimer q3 = Inr (q3\<lparr>timers := []\<rparr>) \<and>
           settle 3 q1 = Some (Inr (q3\<lparr>timers := []\<rparr>))"
proof -
  have l0: "length_q q = 5" using length_contents[OF assms(1)] assms(2) by simp
  have r0: "manualStop q \<or> length_q q \<noteq> 0" using l0 by simp
  from startAutoDequeue_round[OF assms(1,3) r0] obtain q1 where
    s1: "startAutoDequeue q = Inr (JUndefined, q1)" and i1: "queue_inv q1"
    and c1: "contents q1 = [x3, x4, x5]"
    and k1: "calls q1 = calls q @ [([JElem x1, JElem x2], length_q q1 = 0)]"
    and t1: "timers q1 = [dequeueDelay q]" and p1: "policy q1 = policy q"
    using assms(2,4,6) l0 by (auto simp: numeral_2_eq_2)
  have l1: "length_q q1 = 3" using length_contents[OF i1] c1 by simp
  have w1: "dequeueWorkerCallback q1 = CbFunction" and b1: "dequeueBatchSize q1 = 2"
    and m1: "\<not> manualStop q1" and d1: "dequeueDelay q1 = dequeueDelay q"
    using p1 assms(3,4,5) by (simp_all add: policy_def)
  have r1: "manualStop q1 \<or> length_q q1 \<noteq> 0" using l1 by simp
  have t1': "timers q1 = dequeueDelay q # []" using t1 by simp
  from fireTimer_round[OF i1 w1 r1 t1'] obtain q2 where
    s2: "fireTimer q1 = Inr q2" and i2: "queue_inv q2" and c2: "contents q2 = [x5]"
    and k2: "calls q2 = calls q1 @ [([JElem x3, JElem x4], length_q q2 = 0)]"
    and t2: "timers q2 = [dequeueDelay q]" and p2: "policy q2 = policy q1"
    using c1 b1 l1 d1 by (auto simp: numeral_2_eq_2)
  have l2: "length_q q2 = 1" using length_contents[OF i2] c2 by simp
  have w2: "dequeueWorkerCallback q2 = CbFunction" and b2: "dequeueBatchSize q2 = 2"
    and m2: "\<not> manualStop q2" and d2: "dequeueDelay q2 = dequeueDelay q"
    using p2 w1 b1 m1 d1 by (simp_all add: policy_def)
  have r2: "manualStop q2 \<or> length_q q2 \<noteq> 0" using l2 by simp
  have t2': "timers q2 = dequeueDelay q # []" using t2 by simp
  from fireTimer_round[OF i2 w2 r2 t2'] obtain q3 where
    s3: "fireTimer q2 = Inr q3" and i3: "queue_inv q3" and c3: "contents q3 = []"
    and k3: "calls q3 = calls q2 @ [([JElem x5], length_q q3 = 0)]"
    and t3: "timers q3 = [dequeueDelay q]" and p3: "policy q3 = policy q2"
    using c2 b2 l2 d2 by auto
  have l3: "length_q q3 = 0" using length_contents[OF i3] c3 by simp
  have w3: "dequeueWorkerCallback q3 = CbFunction" and m3: "\<not> manualStop q3"
    using p3 w2 m2 by (simp_all add: policy_def)
  have t3': "timers q3 = dequeueDelay q # []" using t3 by simp
  have s4: "fireTimer q3 = Inr (q3\<lparr>timers := []\<rparr>)"
    by (rule fireTimer_idle[OF w3 m3 l3 t3'])
  have run: "run [FireTimer, FireTimer] q1 = Inr ([JUndefined, JUndefined], q3)"
    using s2 s3 by simp
  have calls: "calls q3 = calls q @ [([JElem x1, JElem x2], False), ([JElem x3, JElem x4], False),
                                 ([JElem x5], True)]"
    using k1 k2 k3 l1 l2 l3 by simp
  have "settle 3 q1 = Some (Inr (q3\<lparr>timers := []\<rparr>))"
    using t1 t2 t3 s2 s3 s4 by (simp add: numeral_3_eq_3)
  with s1 run calls l3 t3 s4 show ?thesis by blast
qed

text \<open>
  Claim C5 as stated fails in its last part: after the third worker call, the one that
  received \<open>isEmpty = true\<close>, a further round is scheduled.
\<close>

theorem auto_dequeue_five_by_two_counterexample:
  "map_option calls (final (run
      [Enqueue (1::nat), Enqueue 2, Enqueue 3, Enqueue 4, Enqueue 5,
       StartAutoDequeue, FireTimer, FireTimer]
      (new_FifoQueueAsync CbFunction 2 10 False))) =
     Some [([JElem 1, JElem 2], False), ([JElem 3, JElem 4], False), ([JElem 5], True)] \<and>
   map_option timers (final (run
      [Enqueue (1::nat), Enqueue 2, Enqueue 3, Enqueue 4, Enqueue 5,
       StartAutoDequeue, FireTimer, FireTimer]
      (new_FifoQueueAsync CbFunction 2 10 False))) = Some [10]"
  by code_simp

theorem auto_dequeue_five_by_two_witness:
  "queue_inv
     \<lparr>heap = [\<lparr>node_value = 1::nat, node_next = Some 1\<rparr>, \<lparr>node_value = 2, node_next = Some 2\<rparr>,
                 \<lparr>node_value = 3, node_next = Some 3\<rparr>, \<lparr>node_value = 4, node_next = Some 4\<rparr>,
                 \<lparr>node_value = 5, node_next = None\<rparr>],
         head = Some 0, tail = Some 4, length_q = 5, dequeueWorkerCallback = CbFunction,
         dequeueBatchSize = 2, dequeueDelay = 10, manualStop = False, calls = [], timers = []\<rparr> \<and>
   (\<exists>q1 q3. startAutoDequeue
        \<lparr>heap = [\<lparr>node_value = 1::nat, node_next = Some 1\<rparr>, \<lparr>node_value = 2, node_next = Some 2\<rparr>,
                    \<lparr>node_value = 3, node_next = Some 3\<rparr>, \<lparr>node_value = 4, node_next = Some 4\<rparr>,
                    \<lparr>node_value = 5, node_next = None\<rparr>],
            head = Some 0, tail = Some 4, length_q = 5, dequeueWorkerCallback = CbFunction,
            dequeueBatchSize = 2, dequeueDelay = 10, manualStop = False, calls = [], timers = []\<rparr> = Inr (JUndefined, q1) \<and>
      run [FireTimer, FireTimer] q1 = Inr ([JUndefined, JUndefined], q3) \<and>
      calls q3 = [([JElem 1, JElem 2], False), ([JElem 3, JElem 4], False), ([JElem 5], True)] \<and>
      length_q q3 = 0 \<and> timers q3 = [10] \<and>
      settle 3 q1 = Some (Inr (q3\<lparr>timers := []\<rparr>)))"
proof -
  let ?q = "\<lparr>heap = [\<lparr>node_value = 1::nat, node_next = Some 1\<rparr>, \<lparr>node_value = 2, node_next = Some 2\<rparr>,
               \<lparr>node_value = 3, node_next = Some 3\<rparr>, \<lparr>node_value = 4, node_next = Some 4\<rparr>,
               \<lparr>node_value = 5, node_next = None\<rparr>],
       head = Some 0, tail = Some 4, length_q = 5, dequeueWorkerCallback = CbFunction,
       dequeueBatchSize = 2, dequeueDelay = 10, manualStop = False, calls = [], timers = []\<rparr>"
  have i: "queue_inv ?q" by (simp add: queue_inv_def eval_nat_numeral)
  have c: "contents ?q = [1, 2, 3, 4, 5]" by (simp add: contents_def eval_nat_numeral)
  have w: "dequeueWorkerCallback ?q = CbFunction" by simp
  have b: "dequeueBatchSize ?q = 2" by simp
  have m: "\<not> manualStop ?q" by simp
  have t: "timers ?q = []" by simp
  from auto_dequeue_five_by_two[OF i c w b m t] obtain q1 q3 where
    "startAutoDequeue ?q = Inr (JUndefined, q1)"
    "run [FireTimer, FireTimer] q1 = Inr ([JUndefined, JUndefined], q3)"
    "calls q3 = calls ?q @ [([JElem 1, JElem 2], False), ([JElem 3, JElem 4], False), ([JElem 5], True)]"
    "length_q q3 = 0" "timers q3 = [dequeueDelay ?q]"
    "settle 3 q1 = Some (Inr (q3\<lparr>timers := []\<rparr>))" by blast
  then have "\<exists>q1 q3. startAutoDequeue ?q = Inr (JUndefined, q1) \<and>
      run [FireTimer, FireTimer] q1 = Inr ([JUndefined, JUndefined], q3) \<and>
      calls q3 = [([JElem 1, JElem 2], False), ([JElem 3, JElem 4], False), ([JElem 5], True)] \<and>
      length_q q3 = 0 \<and> timers q3 = [10] \<and>
      settle 3 q1 = Some (Inr (q3\<lparr>timers := []\<rparr>))"
    by auto
  with i show ?thesis by blast
qed

section \<open>The two implementations and the list they represent\<close>

lemma step_list_sim:
  assumes "queue_inv q" and "dequeueWorkerCallback q \<noteq> CbFunction"
  shows "\<exists>q'. step (call_of c) q = Inr (fst (list_step (dequeueBatchSize q) c (contents q)), q') \<and>
           queue_inv q' \<and> contents q' = snd (list_step (dequeueBatchSize q) c (contents q)) \<and>
           frame q' = frame q"
proof (cases c)
  case (SEnqueue v)
  from enqueue_abs[OF assms(1), of v] obtain q' where
    "enqueue v q = Inr q'" "queue_inv q'" "contents q' = contents q @ [v]" "frame q' = frame q"
    by blast
  with SEnqueue show ?thesis by simp
next
  case (SDequeue b)
  have r: "(case b of None \<Rightarrow> dequeueBatchSize q | Some k \<Rightarrow> k) = requested b q"
    by (simp add: requested_def)
  have l: "int (length (contents q)) = length_q q" using length_contents[OF assms(1)] by simp
  from dequeue_abs[OF assms, of b] SDequeue show ?thesis by (simp add: Let_def r l)
next
  case SPeek
  with peek_abs[OF assms(1)] assms(1) show ?thesis by simp
next
  case SSize
  with size_abs[OF assms(1)] assms(1) show ?thesis by simp
next
  case SIsEmpty
  with isEmpty_abs[OF assms(1)] assms(1) show ?thesis by simp
next
  case SClear
  then show ?thesis by (simp add: queue_inv_clear contents_clear frame_clear)
qed

lemma run_list_sim:
  "queue_inv q \<Longrightarrow> dequeueWorkerCallback q \<noteq> CbFunction \<Longrightarrow>
   returned (run (map call_of cs) q) = Some (list_run (dequeueBatchSize q) cs (contents q))"
proof (induction cs arbitrary: q)
  case Nil
  then show ?case by simp
next
  case (Cons c cs)
  from step_list_sim[OF Cons.prems, of c] obtain q' where
    s: "step (call_of c) q = Inr (fst (list_step (dequeueBatchSize q) c (contents q)), q')"
    and i: "queue_inv q'" and c': "contents q' = snd (list_step (dequeueBatchSize q) c (contents q))"
    and f: "frame q' = frame q" by blast
  note ff = frame_fields[OF f]
  have w: "dequeueWorkerCallback q' \<noteq> CbFunction" using ff Cons.prems(2) by simp
  have b: "dequeueBatchSize q' = dequeueBatchSize q" using ff by simp
  from Cons.IH[OF i w] have
    "returned (run (map call_of cs) q') = Some (list_run (dequeueBatchSize q) cs (contents q'))"
    using b by simp
  then show ?case using s c'
    by (cases "run (map call_of cs) q'"; cases "list_step (dequeueBatchSize q) c (contents q)")
       (auto split: prod.splits)
qed

lemma length_contents_arr: "arr_inv q \<Longrightarrow> size_arr q = int (length (contents_arr q))"
  by (simp add: arr_inv_def size_arr_def contents_arr_def)

lemma isEmpty_arr_abs: "arr_inv q \<Longrightarrow> isEmpty_arr q = (contents_arr q = [])"
  by (auto simp: arr_inv_def isEmpty_arr_def contents_arr_def)

lemma arr_inv_new: "arr_inv (new_FifoQueueAsync_arr w b d)"
  by (simp add: arr_inv_def new_FifoQueueAsync_arr_def)

lemma contents_arr_new: "contents_arr (new_FifoQueueAsync_arr w b d) = []"
  by (simp add: contents_arr_def new_FifoQueueAsync_arr_def)

lemma arr_inv_clear: "arr_inv (clear_arr q)"
  by (simp add: arr_inv_def clear_arr_def)

lemma contents_arr_clear: "contents_arr (clear_arr q) = []"
  by (simp add: contents_arr_def clear_arr_def)

lemma enqueue_arr_abs:
  assumes "arr_inv q"
  shows "arr_inv (enqueue_arr v q) \<and> contents_arr (enqueue_arr v q) = contents_arr q @ [v] \<and>
         policy_arr (enqueue_arr v q) = policy_arr q"
proof -
  from assms have le: "front q \<le> rear q"
    and al: "list_all (\<lambda>i. items q i \<noteq> None) [front q..rear q - 1]"
    by (simp_all add: arr_inv_def)
  have up: "[front q..rear q] = [front q..rear q - 1] @ [rear q]"
    using le by (simp add: upto_rec2)
  have old: "\<And>i. i \<in> set [front q..rear q - 1] \<Longrightarrow> ((items q)(rear q := Some v)) i = items q i"
    by simp
  have m: "map (\<lambda>i. the (((items q)(rear q := Some v)) i)) [front q..rear q - 1] =
           map (\<lambda>i. the (items q i)) [front q..rear q - 1]"
    by (rule map_cong) simp_all
  have a: "list_all (\<lambda>i. ((items q)(rear q := Some v)) i \<noteq> None) [front q..rear q - 1]"
    using al by (simp add: list_all_iff)
  show ?thesis using le m a
    by (simp add: enqueue_arr_def Let_def arr_inv_def contents_arr_def policy_arr_def up)
qed

lemma getDequeueElement_arr_abs:
  assumes "arr_inv q" and "contents_arr q = x # xs"
  shows "\<exists>q'. getDequeueElement_arr q = (JElem x, q') \<and> arr_inv q' \<and> contents_arr q' = xs \<and>
           policy_arr q' = policy_arr q"
proof -
  from assms(1) have le: "front q \<le> rear q"
    and al: "list_all (\<lambda>i. items q i \<noteq> None) [front q..rear q - 1]"
    by (simp_all add: arr_inv_def)
  have lt: "front q < rear q"
    using assms(2) le by (cases "front q = rear q") (simp_all add: contents_arr_def)
  have up: "[front q..rear q - 1] = front q # [front q + 1..rear q - 1]"
    using lt by (simp add: upto_rec1)
  from al up obtain y where y: "items q (front q) = Some y" by auto
  with assms(2) up have xy: "x = y" and xs: "xs = map (\<lambda>i. the (items q i)) [front q + 1..rear q - 1]"
    by (simp_all add: contents_arr_def)
  define q' where "q' = q\<lparr>items := (items q)(front q := None), front := front q + 1\<rparr>"
  have g: "getDequeueElement_arr q = (JElem x, q')"
    using lt y xy by (simp add: getDequeueElement_arr_def isEmpty_arr_def Let_def q'_def)
  have m: "map (\<lambda>i. the (((items q)(front q := None)) i)) [front q + 1..rear q - 1] =
           map (\<lambda>i. the (items q i)) [front q + 1..rear q - 1]"
    by (rule map_cong) simp_all
  have a: "list_all (\<lambda>i. ((items q)(front q := None)) i \<noteq> None) [front q + 1..rear q - 1]"
    using al up by (simp add: list_all_iff)
  have "arr_inv q'" using lt a by (simp add: arr_inv_def q'_def)
  moreover have "contents_arr q' = xs" using m xs by (simp add: contents_arr_def q'_def)
  moreover have "policy_arr q' = policy_arr q" by (simp add: policy_arr_def q'_def)
  ultimately show ?thesis using g by blast
qed

lemma dequeueLoop_arr_abs:
  "arr_inv q \<Longrightarrow> i \<le> int (length (contents_arr q)) \<Longrightarrow>
   \<exists>q'. dequeueLoop_arr i acc q = (acc @ map JElem (take (nat i) (contents_arr q)), q') \<and>
        arr_inv q' \<and> contents_arr q' = drop (nat i) (contents_arr q) \<and> policy_arr q' = policy_arr q"
proof (induction "nat i" arbitrary: i acc q)
  case 0
  then have "\<not> i > 0" by simp
  then have "dequeueLoop_arr i acc q = (acc, q)"
    by (subst dequeueLoop_arr.simps) simp
  with 0 show ?case by simp
next
  case (Suc n)
  then have pos: "i > 0" and n: "nat (i - 1) = n" by auto
  with Suc.prems obtain x xs where c: "contents_arr q = x # xs"
    by (cases "contents_arr q") auto
  from getDequeueElement_arr_abs[OF Suc.prems(1) c] obtain q1 where
    g: "getDequeueElement_arr q = (JElem x, q1)" and i1: "arr_inv q1" and c1: "contents_arr q1 = xs"
    and f1: "policy_arr q1 = policy_arr q" by blast
  have le: "i - 1 \<le> int (length (contents_arr q1))" using Suc.prems(2) c c1 by simp
  from Suc.hyps(1)[OF n[symmetric] i1 le, of "acc @ [JElem x]"] obtain q' where
    l: "dequeueLoop_arr (i - 1) (acc @ [JElem x]) q1 =
          ((acc @ [JElem x]) @ map JElem (take (nat (i - 1)) (contents_arr q1)), q')"
    and i': "arr_inv q'" and c': "contents_arr q' = drop (nat (i - 1)) (contents_arr q1)"
    and f': "policy_arr q' = policy_arr q1" by blast
  have s: "nat i = Suc n" using Suc.hyps(2) by simp
  have "dequeueLoop_arr i acc q = dequeueLoop_arr (i - 1) (acc @ [JElem x]) q1"
    using pos g by (subst dequeueLoop_arr.simps) simp
  with l i' c' f' f1 c c1 n s show ?case by simp
qed

lemma getDequeueElements_arr_abs:
  assumes "arr_inv q"
  shows "\<exists>q'. getDequeueElements_arr b q =
              (map JElem (take (nat (min (case b of None \<Rightarrow> dequeueBatchSize_arr q | Some k \<Rightarrow> k)
                                         (int (length (contents_arr q))))) (contents_arr q)), q') \<and>
           arr_inv q' \<and>
           contents_arr q' = drop (nat (min (case b of None \<Rightarrow> dequeueBatchSize_arr q | Some k \<Rightarrow> k)
                                         (int (length (contents_arr q))))) (contents_arr q) \<and>
           policy_arr q' = policy_arr q"
proof -
  let ?lim = "min (case b of None \<Rightarrow> dequeueBatchSize_arr q | Some k \<Rightarrow> k) (int (length (contents_arr q)))"
  have lim: "(case b of None \<Rightarrow> min (dequeueBatchSize_arr q) (size_arr q) | Some k \<Rightarrow> min k (size_arr q)) = ?lim"
    using length_contents_arr[OF assms] by (simp split: option.splits)
  have "?lim \<le> int (length (contents_arr q))" by simp
  from dequeueLoop_arr_abs[OF assms this, of "[]"] obtain q1 where
    l: "dequeueLoop_arr ?lim [] q = (map JElem (take (nat ?lim) (contents_arr q)), q1)"
    and i1: "arr_inv q1" and c1: "contents_arr q1 = drop (nat ?lim) (contents_arr q)"
    and f1: "policy_arr q1 = policy_arr q" by auto
  let ?q' = "if isEmpty_arr q1 then clear_arr q1 else q1"
  have g: "getDequeueElements_arr b q = (map JElem (take (nat ?lim) (contents_arr q)), ?q')"
    unfolding getDequeueElements_arr_def Let_def lim l by simp
  have "arr_inv ?q'" using i1 by (simp add: arr_inv_clear)
  moreover have "contents_arr ?q' = drop (nat ?lim) (contents_arr q)"
    using c1 isEmpty_arr_abs[OF i1] by (simp add: contents_arr_clear)
  moreover have "policy_arr ?q' = policy_arr q" using f1 by (simp add: policy_arr_def clear_arr_def)
  ultimately show ?thesis using g by blast
qed

lemma peek_arr_abs:
  assumes "arr_inv q"
  shows "peek_arr q = (case contents_arr q of [] \<Rightarrow> JNull | x # xs \<Rightarrow> JElem x)"
proof (cases "contents_arr q")
  case Nil
  then show ?thesis using isEmpty_arr_abs[OF assms] by (simp add: peek_arr_def)
next
  case (Cons x xs)
  from getDequeueElement_arr_abs[OF assms Cons] obtain q' where
    "getDequeueElement_arr q = (JElem x, q')" by blast
  moreover have "\<not> isEmpty_arr q" using isEmpty_arr_abs[OF assms] Cons by simp
  ultimately show ?thesis using Cons
    by (simp add: peek_arr_def getDequeueElement_arr_def Let_def split: option.splits)
qed

lemma step_arr_sim:
  assumes "arr_inv q" and "dequeueWorkerCallback_arr q \<noteq> CbFunction"
  shows "\<exists>q'. step_arr c q = (fst (list_step (dequeueBatchSize_arr q) c (contents_arr q)), q') \<and>
           arr_inv q' \<and> contents_arr q' = snd (list_step (dequeueBatchSize_arr q) c (contents_arr q)) \<and>
           policy_arr q' = policy_arr q"
proof (cases c)
  case (SEnqueue v)
  with enqueue_arr_abs[OF assms(1), of v] show ?thesis by simp
next
  case (SDequeue b)
  from getDequeueElements_arr_abs[OF assms(1), of b] assms(2) SDequeue show ?thesis
    by (auto simp: dequeue_arr_def typeof_function_def Let_def)
next
  case SPeek
  with peek_arr_abs[OF assms(1)] assms(1) show ?thesis by simp
next
  case SSize
  with length_contents_arr[OF assms(1)] assms(1) show ?thesis by simp
next
  case SIsEmpty
  with isEmpty_arr_abs[OF assms(1)] assms(1) show ?thesis by simp
next
  case SClear
  have "policy_arr (clear_arr q) = policy_arr q" by (simp add: policy_arr_def clear_arr_def)
  with SClear show ?thesis by (simp add: arr_inv_clear contents_arr_clear)
qed

lemma run_arr_sim:
  "arr_inv q \<Longrightarrow> dequeueWorkerCallback_arr q \<noteq> CbFunction \<Longrightarrow>
   fst (run_arr cs q) = list_run (dequeueBatchSize_arr q) cs (contents_arr q)"
proof (induction cs arbitrary: q)
  case Nil
  then show ?case by simp
next
  case (Cons c cs)
  from step_arr_sim[OF Cons.prems, of c] obtain q' where
    s: "step_arr c q = (fst (list_step (dequeueBatchSize_arr q) c (contents_arr q)), q')"
    and i: "arr_inv q'"
    and c': "contents_arr q' = snd (list_step (dequeueBatchSize_arr q) c (contents_arr q))"
    and f: "policy_arr q' = policy_arr q" by blast
  have w: "dequeueWorkerCallback_arr q' \<noteq> CbFunction" using f Cons.prems(2) by (simp add: policy_arr_def)
  have b: "dequeueBatchSize_arr q' = dequeueBatchSize_arr q" using f by (simp add: policy_arr_def)
  from Cons.IH[OF i w] have
    "fst (run_arr cs q') = list_run (dequeueBatchSize_arr q) cs (contents_arr q')"
    using b by simp
  then show ?case using s c'
    by (cases "run_arr cs q'"; cases "list_step (dequeueBatchSize_arr q) c (contents_arr q)") auto
qed

text \<open>
  Claim C10. With no worker configured, the array implementation and the linked-list
  implementation are observationally equivalent on the synchronous API: constructed with
  the same arguments, they return the same sequence of values for every sequence of
  \<open>enqueue\<close>, \<open>dequeue\<close>, \<open>peek\<close>, \<open>size\<close>, \<open>isEmpty\<close> and \<open>clear\<close> calls, and the
  linked-list implementation raises no exception.
\<close>

theorem implementations_agree:
  assumes "w \<noteq> CbFunction"
  shows "returned (run (map call_of cs) (new_FifoQueueAsync w b d m)) =
           Some (fst (run_arr cs (new_FifoQueueAsync_arr w b d)))"
proof -
  have 1: "dequeueWorkerCallback (new_FifoQueueAsync w b d m :: 'a FifoQueueAsync) \<noteq> CbFunction"
    using assms by (simp add: new_FifoQueueAsync_def)
  have 2: "dequeueWorkerCallback_arr (new_FifoQueueAsync_arr w b d :: 'a FifoQueueAsync_arr) \<noteq> CbFunction"
    using assms by (simp add: new_FifoQueueAsync_arr_def)
  have 3: "dequeueBatchSize (new_FifoQueueAsync w b d m :: 'a FifoQueueAsync) = b"
    by (simp add: new_FifoQueueAsync_def)
  have 4: "dequeueBatchSize_arr (new_FifoQueueAsync_arr w b d :: 'a FifoQueueAsync_arr) = b"
    by (simp add: new_FifoQueueAsync_arr_def)
  have "returned (run (map call_of cs) (new_FifoQueueAsync w b d m)) = Some (list_run b cs [])"
    using run_list_sim[OF queue_inv_new 1, of cs] unfolding 3 contents_new .
  moreover have "fst (run_arr cs (new_FifoQueueAsync_arr w b d)) = list_run b cs []"
    using run_arr_sim[OF arr_inv_new 2, of cs] unfolding 4 contents_arr_new .
  ultimately show ?thesis by simp
qed

theorem implementations_agree_witness:
  "CbNull \<noteq> CbFunction \<and>
   returned (run (map call_of [SEnqueue (4::nat), SEnqueue 5, SPeek, SDequeue (Some 1), SSize,
                               SDequeue None, SIsEmpty, SEnqueue 6, SClear, SDequeue (Some 3)])
               (new_FifoQueueAsync CbNull 2 10 False)) =
     Some (fst (run_arr [SEnqueue (4::nat), SEnqueue 5, SPeek, SDequeue (Some 1), SSize,
                         SDequeue None, SIsEmpty, SEnqueue 6, SClear, SDequeue (Some 3)]
                  (new_FifoQueueAsync_arr CbNull 2 10)))"
proof -
  have h: "CbNull \<noteq> CbFunction" by simp
  show ?thesis by (rule conjI[OF h implementations_agree[OF h]])
qed

end
